theory Spec2Isabelle
  imports Main "HOL-Library.Char_ord"
begin

section \<open>Data model (scanner.h, scanner.c)\<close>

text \<open>
  The token tags of \<^verbatim>\<open>scanner.h\<close>, in the order of the enumeration.
\<close>

datatype (plugins only:) TokenType =
    TOKEN_LEFT_PAREN | TOKEN_RIGHT_PAREN | TOKEN_LEFT_BRACKET | TOKEN_RIGHT_BRACKET
  | TOKEN_LEFT_BRACE | TOKEN_RIGHT_BRACE | TOKEN_COMMA | TOKEN_DOT | TOKEN_SEMICOLON
  | TOKEN_TILDE
  | TOKEN_PLUS | TOKEN_PLUS_PLUS | TOKEN_PLUS_EQUAL
  | TOKEN_MINUS | TOKEN_MINUS_MINUS | TOKEN_MINUS_EQUAL | TOKEN_MINUS_GREATER
  | TOKEN_STAR | TOKEN_STAR_EQUAL | TOKEN_SLASH | TOKEN_SLASH_EQUAL
  | TOKEN_PERCENT | TOKEN_PERCENT_EQUAL
  | TOKEN_AMPER | TOKEN_AMPER_EQUAL | TOKEN_AMPER_AMPER
  | TOKEN_PIPE | TOKEN_PIPE_EQUAL | TOKEN_PIPE_PIPE
  | TOKEN_HAT | TOKEN_HAT_EQUAL | TOKEN_EQUAL | TOKEN_EQUAL_EQUAL
  | TOKEN_BANG | TOKEN_BANG_EQUAL
  | TOKEN_LESS | TOKEN_LESS_EQUAL | TOKEN_LESS_LESS
  | TOKEN_GREATER | TOKEN_GREATER_EQUAL | TOKEN_GREATER_GREATER
  | TOKEN_IDENTIFIER | TOKEN_CHARACTER | TOKEN_STRING | TOKEN_NUMBER
  | TOKEN_SIGNED | TOKEN_UNSIGNED | TOKEN_CHAR | TOKEN_SHORT | TOKEN_INT | TOKEN_LONG
  | TOKEN_FLOAT | TOKEN_DOUBLE | TOKEN_STRUCT | TOKEN_UNION | TOKEN_ENUM | TOKEN_VOID
  | TOKEN_IF | TOKEN_ELSE | TOKEN_SWITCH | TOKEN_CASE | TOKEN_DEFAULT
  | TOKEN_WHILE | TOKEN_DO | TOKEN_FOR
  | TOKEN_BREAK | TOKEN_CONTINUE | TOKEN_RETURN | TOKEN_GOTO
  | TOKEN_CONST | TOKEN_SIZEOF | TOKEN_TYPEDEF
  | TOKEN_ERROR | TOKEN_EOF

text \<open>
  A \<^verbatim>\<open>const char *\<close> held by a token points into the source buffer (an offset from
  the pointer given to \<^verbatim>\<open>initScanner\<close>), at the static array \<^verbatim>\<open>message\<close>, or at a string
  literal of the program (given by its bytes).
\<close>

datatype ptr = SourcePtr nat | MessagePtr | LiteralPtr string

text \<open>
  \<^verbatim>\<open>Token\<close> of \<^verbatim>\<open>scanner.h\<close>. The fields are \<^verbatim>\<open>type\<close>, \<^verbatim>\<open>start\<close>, \<^verbatim>\<open>length\<close> and \<^verbatim>\<open>line\<close>; they
  carry a prefix here because \<^verbatim>\<open>start\<close> and \<^verbatim>\<open>line\<close> are also fields of \<^verbatim>\<open>Scanner\<close> and
  \<^verbatim>\<open>length\<close> is the length of a HOL list.
\<close>

record Token =
  tok_type :: TokenType
  tok_start :: ptr
  tok_length :: int
  tok_line :: int

text \<open>
  \<^verbatim>\<open>Scanner\<close> of \<^verbatim>\<open>scanner.c\<close>: the two cursors are offsets into the source buffer.
\<close>

record Scanner =
  start :: nat
  current :: nat
  line :: int

text \<open>
  The two static objects of \<^verbatim>\<open>scanner.c\<close>: \<^verbatim>\<open>static Scanner scanner\<close> and
  \<^verbatim>\<open>static char message[50]\<close>. The field \<open>message\<close> holds the bytes in front of the
  first zero byte of the array, which are those the last \<^verbatim>\<open>sprintf(message, ...)\<close> wrote;
  the array has \<open>MESSAGE_SIZE\<close> bytes, so the field never holds more than 49
  (\<open>sprintf_message\<close> below is the only writer).
\<close>

record globals =
  scanner :: Scanner
  message :: string

definition MESSAGE_SIZE :: nat where
  "MESSAGE_SIZE = 50"

text \<open>
  Static storage starts out filled with zero bytes: \<^verbatim>\<open>message\<close> holds the empty string,
  and the fields of \<^verbatim>\<open>scanner\<close> are zero until \<^verbatim>\<open>initScanner\<close> sets them.
\<close>

definition zero_globals :: globals where
  "zero_globals = \<lparr>scanner = \<lparr>start = 0, current = 0, line = 0\<rparr>, message = []\<rparr>"

section \<open>Machine integers and faults\<close>

text \<open>
  \<^verbatim>\<open>int\<close> is 32 bits wide, pointers and \<^verbatim>\<open>size_t\<close> are wider. \<open>c_int\<close> is the conversion
  of a pointer difference or of a \<^verbatim>\<open>size_t\<close> to \<^verbatim>\<open>int\<close>, by a cast or by the initialisation
  of an \<^verbatim>\<open>int\<close> variable: the value modulo \<open>2^32\<close>, read as a signed number (what the
  compilers in use do with a value out of range). It is the identity from \<open>- 2^31\<close> up to
  \<open>2^31 - 1\<close>.
\<close>

definition c_int :: "int \<Rightarrow> int" where
  "c_int x = (x + 2147483648) mod 4294967296 - 2147483648"

text \<open>
  A call of \<^verbatim>\<open>scanToken\<close> either returns a token, or it writes past the end of
  \<^verbatim>\<open>message\<close>, after which the C standard says nothing about the program.
  \<open>MessageOverrun out\<close> is that second outcome, with \<open>out\<close> the bytes that \<^verbatim>\<open>sprintf\<close> was
  writing (the terminating zero byte follows them).
\<close>

datatype fault = MessageOverrun string

section \<open>The source buffer\<close>

text \<open>
  The source is a zero-terminated C string. \<open>src\<close> holds the bytes in front of the
  terminator; the byte at offset \<open>length src\<close> is the terminator. The scanner stops at the
  first zero byte it meets, so it never reads beyond offset \<open>length src\<close>.
\<close>

definition NUL :: char where
  "NUL = CHR 0x00"

definition char_at :: "string \<Rightarrow> nat \<Rightarrow> char" where
  "char_at src i = (if i < length src then src ! i else NUL)"

definition bytes_at :: "string \<Rightarrow> nat \<Rightarrow> nat \<Rightarrow> string" where
  "bytes_at src p n = map (char_at src) [p ..< p + n]"

text \<open>\<^verbatim>\<open>strlen\<close>: the number of bytes in front of the first zero byte.\<close>

definition strlen :: "string \<Rightarrow> nat" where
  "strlen s = length (takeWhile (\<lambda>c. c \<noteq> NUL) s)"

section \<open>Cursor primitives\<close>

definition initScanner :: "globals \<Rightarrow> globals" where
  "initScanner g = g\<lparr>scanner := \<lparr>start = 0, current = 0, line = 1\<rparr>\<rparr>"

text \<open>
  The two character classes compare byte values. A byte from \<open>0x80\<close> on is negative where
  \<^verbatim>\<open>char\<close> is signed and above \<open>z\<close> where it is not: it is in neither class either way,
  so the order of \<open>char\<close> (by byte value, unsigned) gives the result of the C comparison.
\<close>

definition isAlpha :: "char \<Rightarrow> bool" where
  "isAlpha c \<longleftrightarrow> (c \<ge> CHR ''a'' \<and> c \<le> CHR ''z'') \<or>
                (c \<ge> CHR ''A'' \<and> c \<le> CHR ''Z'') \<or>
                c = CHR ''_''"

definition isDigit :: "char \<Rightarrow> bool" where
  "isDigit c \<longleftrightarrow> c \<ge> CHR ''0'' \<and> c \<le> CHR ''9''"

definition peek :: "string \<Rightarrow> Scanner \<Rightarrow> char" where
  "peek src s = char_at src (current s)"

definition isAtEnd :: "string \<Rightarrow> Scanner \<Rightarrow> bool" where
  "isAtEnd src s \<longleftrightarrow> char_at src (current s) = NUL"

definition advance :: "Scanner \<Rightarrow> Scanner" where
  "advance s = s\<lparr>current := current s + 1\<rparr>"

definition peekNext :: "string \<Rightarrow> Scanner \<Rightarrow> char" where
  "peekNext src s = (if isAtEnd src s then NUL else char_at src (current s + 1))"

definition match :: "string \<Rightarrow> char \<Rightarrow> Scanner \<Rightarrow> bool \<times> Scanner" where
  "match src expected s =
     (if isAtEnd src s then (False, s)
      else if peek src s \<noteq> expected then (False, s)
      else (True, s\<lparr>current := current s + 1\<rparr>))"

text \<open>
  \<^verbatim>\<open>makeToken\<close>: the length is \<^verbatim>\<open>(int)(scanner.current - scanner.start)\<close>, the difference
  of the two cursors converted to \<^verbatim>\<open>int\<close>.
\<close>

definition makeToken :: "TokenType \<Rightarrow> Scanner \<Rightarrow> Token" where
  "makeToken t s =
     \<lparr>tok_type = t, tok_start = SourcePtr (start s),
      tok_length = c_int (int (current s) - int (start s)), tok_line = line s\<rparr>"

text \<open>
  \<^verbatim>\<open>errorToken\<close> receives a pointer; \<open>txt\<close> is the bytes stored there. The length is
  \<^verbatim>\<open>(int)strlen(message)\<close>.
\<close>

definition errorToken :: "ptr \<Rightarrow> string \<Rightarrow> Scanner \<Rightarrow> Token" where
  "errorToken p txt s =
     \<lparr>tok_type = TOKEN_ERROR, tok_start = p,
      tok_length = c_int (int (strlen txt)), tok_line = line s\<rparr>"

section \<open>Whitespace and comments\<close>

text \<open>
  The inner loop of \<^verbatim>\<open>skipWhitespace\<close>:
  \<^verbatim>\<open>while (peek() != '\n' && !isAtEnd()) advance();\<close>
\<close>

function skipComment :: "string \<Rightarrow> Scanner \<Rightarrow> Scanner" where
  "skipComment src s =
     (if peek src s \<noteq> CHR 0x0A \<and> \<not> isAtEnd src s then skipComment src (advance s) else s)"
  by pat_completeness auto
termination
  by (relation "measure (\<lambda>(src, s). length src - current s)")
     (auto simp: isAtEnd_def char_at_def advance_def split: if_splits)

declare skipComment.simps [simp del]

text \<open>
  \<^verbatim>\<open>skipWhitespace\<close>: the four blank characters are consumed by \<^verbatim>\<open>advance()\<close> alone (the
  newline shares the branch of the space, the carriage return and the tab; nothing in
  \<^verbatim>\<open>scanner.c\<close> assigns \<^verbatim>\<open>scanner.line\<close> after \<^verbatim>\<open>initScanner\<close>).
\<close>

function skipWhitespace :: "string \<Rightarrow> Scanner \<Rightarrow> Scanner" where
  "skipWhitespace src s =
     (let c = peek src s in
      if c = CHR '' '' \<or> c = CHR 0x0D \<or> c = CHR 0x09 \<or> c = CHR 0x0A
      then skipWhitespace src (advance s)
      else if c = CHR ''/''
      then (if peekNext src s = CHR ''/'' then skipWhitespace src (skipComment src s) else s)
      else s)"
  by pat_completeness auto
termination
proof (relation "measure (\<lambda>(src, s). length src - current s)", goal_cases)
  case 1
  show ?case by simp
next
  case (2 src s c)
  then show ?case
    by (auto simp: peek_def char_at_def advance_def NUL_def split: if_splits)
next
  case (3 src s c)
  have mono: "current t \<le> current (skipComment src t)" for t
    by (induction src t rule: skipComment.induct)
       (subst skipComment.simps, auto simp: advance_def)
  from 3 have lt: "current s < length src"
    by (auto simp: peek_def char_at_def NUL_def split: if_splits)
  from 3 have "skipComment src s = skipComment src (advance s)"
    by (subst skipComment.simps) (auto simp: peek_def isAtEnd_def NUL_def)
  with mono [of "advance s"] have "current s < current (skipComment src s)"
    by (simp add: advance_def)
  with lt show ?case by simp
qed

declare skipWhitespace.simps [simp del]

section \<open>Identifiers and keywords\<close>

text \<open>
  \<^verbatim>\<open>memcmp(scanner.start + start, rest, length) == 0\<close> compares \<open>len\<close> bytes of the source with
  the first \<open>len\<close> bytes of the literal \<open>rest\<close>.
\<close>

definition checkKeyword ::
  "string \<Rightarrow> Scanner \<Rightarrow> nat \<Rightarrow> nat \<Rightarrow> string \<Rightarrow> TokenType \<Rightarrow> TokenType" where
  "checkKeyword src s st len rest t =
     (if int (current s) - int (start s) = int st + int len \<and>
         bytes_at src (start s + st) len = take len rest
      then t else TOKEN_IDENTIFIER)"

text \<open>
  \<^verbatim>\<open>identifierType\<close>: the nested \<^verbatim>\<open>switch\<close> statements, branch by branch. A \<^verbatim>\<open>switch\<close> that
  matches no case, and every \<^verbatim>\<open>break\<close>, reach the final \<^verbatim>\<open>return TOKEN_IDENTIFIER\<close>.
\<close>

definition identifierType :: "string \<Rightarrow> Scanner \<Rightarrow> TokenType" where
  "identifierType src s =
     (let first = char_at src (start s);
          len = c_int (int (current s) - int (start s));
          c1 = char_at src (start s + 1);
          c2 = char_at src (start s + 2);
          c3 = char_at src (start s + 3)
      in
      if first = CHR ''b'' then checkKeyword src s 1 4 ''reak'' TOKEN_BREAK
      else if first = CHR ''c'' then
        (if len > 1 then
           (if c1 = CHR ''a'' then checkKeyword src s 2 2 ''se'' TOKEN_CASE
            else if c1 = CHR ''h'' then checkKeyword src s 2 2 ''ar'' TOKEN_CHAR
            else if c1 = CHR ''o'' then
              (if len > 3 \<and> c2 = CHR ''n'' then
                 (if c3 = CHR ''s'' then checkKeyword src s 4 1 ''t'' TOKEN_CONST
                  else if c3 = CHR ''t'' then checkKeyword src s 4 4 ''inue'' TOKEN_CONTINUE
                  else TOKEN_IDENTIFIER)
               else TOKEN_IDENTIFIER)
            else TOKEN_IDENTIFIER)
         else TOKEN_IDENTIFIER)
      else if first = CHR ''d'' then
        (if len > 1 then
           (if c1 = CHR ''e'' then checkKeyword src s 2 5 ''fault'' TOKEN_DEFAULT
            else if c1 = CHR ''o'' then
              (if len = 2 then TOKEN_DO
               else checkKeyword src s 2 4 ''uble'' TOKEN_DOUBLE)
            else TOKEN_IDENTIFIER)
         else TOKEN_IDENTIFIER)
      else if first = CHR ''e'' then
        (if len > 1 then
           (if c1 = CHR ''l'' then checkKeyword src s 2 2 ''se'' TOKEN_ELSE
            else if c1 = CHR ''n'' then checkKeyword src s 2 2 ''um'' TOKEN_ENUM
            else TOKEN_IDENTIFIER)
         else TOKEN_IDENTIFIER)
      else if first = CHR ''f'' then
        (if len > 1 then
           (if c1 = CHR ''l'' then checkKeyword src s 2 3 ''oat'' TOKEN_FLOAT
            else if c1 = CHR ''o'' then checkKeyword src s 2 1 ''r'' TOKEN_FOR
            else TOKEN_IDENTIFIER)
         else TOKEN_IDENTIFIER)
      else if first = CHR ''g'' then checkKeyword src s 1 3 ''oto'' TOKEN_GOTO
      else if first = CHR ''i'' then
        (if len > 1 then
           (if c1 = CHR ''f'' then checkKeyword src s 2 0 [] TOKEN_IF
            else if c1 = CHR ''n'' then checkKeyword src s 2 1 ''t'' TOKEN_INT
            else TOKEN_IDENTIFIER)
         else TOKEN_IDENTIFIER)
      else if first = CHR ''l'' then checkKeyword src s 1 3 ''ong'' TOKEN_LONG
      else if first = CHR ''r'' then checkKeyword src s 1 5 ''eturn'' TOKEN_RETURN
      else if first = CHR ''s'' then
        (if len > 1 then
           (if c1 = CHR ''h'' then checkKeyword src s 2 3 ''ort'' TOKEN_SHORT
            else if c1 = CHR ''i'' then
              (if len > 2 then
                 (if c2 = CHR ''g'' then checkKeyword src s 3 3 ''ned'' TOKEN_SIGNED
                  else if c2 = CHR ''z'' then checkKeyword src s 3 3 ''eof'' TOKEN_SIZEOF
                  else TOKEN_IDENTIFIER)
               else TOKEN_IDENTIFIER)
            else if c1 = CHR ''t'' then checkKeyword src s 2 4 ''ruct'' TOKEN_STRUCT
            else if c1 = CHR ''w'' then checkKeyword src s 2 4 ''itch'' TOKEN_SWITCH
            else TOKEN_IDENTIFIER)
         else TOKEN_IDENTIFIER)
      else if first = CHR ''t'' then checkKeyword src s 1 6 ''ypedef'' TOKEN_TYPEDEF
      else if first = CHR ''u'' then
        (if len > 2 \<and> c1 = CHR ''n'' then
           (if c2 = CHR ''i'' then checkKeyword src s 3 2 ''on'' TOKEN_UNION
            else if c2 = CHR ''s'' then checkKeyword src s 3 5 ''igned'' TOKEN_UNSIGNED
            else TOKEN_IDENTIFIER)
         else TOKEN_IDENTIFIER)
      else if first = CHR ''v'' then checkKeyword src s 1 3 ''oid'' TOKEN_VOID
      else if first = CHR ''w'' then checkKeyword src s 1 4 ''hile'' TOKEN_WHILE
      else TOKEN_IDENTIFIER)"

text \<open>The loop of \<^verbatim>\<open>identifier\<close>: \<^verbatim>\<open>while (isAlpha(peek()) || isDigit(peek())) advance();\<close>\<close>

function identifier_loop :: "string \<Rightarrow> Scanner \<Rightarrow> Scanner" where
  "identifier_loop src s =
     (if isAlpha (peek src s) \<or> isDigit (peek src s) then identifier_loop src (advance s) else s)"
  by pat_completeness auto
termination
  by (relation "measure (\<lambda>(src, s). length src - current s)")
     (auto simp: isAlpha_def isDigit_def peek_def char_at_def advance_def NUL_def
           split: if_splits)

declare identifier_loop.simps [simp del]

text \<open>
  \<^verbatim>\<open>identifier\<close> of \<^verbatim>\<open>scanner.c\<close> (the name alone is reserved in Isabelle). Every handler
  returns its token together with the scanner it leaves behind.
\<close>

definition identifier_tok :: "string \<Rightarrow> Scanner \<Rightarrow> Token \<times> Scanner" where
  "identifier_tok src s =
     (let s' = identifier_loop src s;
          type = identifierType src s'
      in (makeToken type s', s'))"

section \<open>Numbers\<close>

text \<open>The loop \<^verbatim>\<open>while (isDigit(peek())) advance();\<close>, which \<^verbatim>\<open>number\<close> runs twice.\<close>

function digits :: "string \<Rightarrow> Scanner \<Rightarrow> Scanner" where
  "digits src s = (if isDigit (peek src s) then digits src (advance s) else s)"
  by pat_completeness auto
termination
  by (relation "measure (\<lambda>(src, s). length src - current s)")
     (auto simp: isDigit_def peek_def char_at_def advance_def NUL_def split: if_splits)

declare digits.simps [simp del]

definition number :: "string \<Rightarrow> Scanner \<Rightarrow> Token \<times> Scanner" where
  "number src s =
     (let s1 = digits src s;
          s2 = (if peek src s1 = CHR ''.'' \<and> isDigit (peekNext src s1)
                then digits src (advance s1) else s1)
      in (makeToken TOKEN_NUMBER s2, s2))"

section \<open>String and character literals\<close>

text \<open>
  The messages are the bytes of the string literals of \<^verbatim>\<open>scanner.c\<close> (UTF-8, as the file
  is stored): the multi-line string message of line 361, the unterminated string message of
  line 367, the missing closing quote message of lines 382 and 394, the multi-line
  character message of line 389, and the text in front of the conversion in the two
  \<^verbatim>\<open>sprintf\<close> formats of lines 407 and 418.
\<close>

definition MSG_MULTILINE_STRING :: string where
  "MSG_MULTILINE_STRING = [
      CHR 0xE4, CHR 0xB8, CHR 0x8D, CHR 0xE6, CHR 0x94, CHR 0xAF, CHR 0xE6, CHR 0x8C,
      CHR 0x81, CHR 0xE5, CHR 0xA4, CHR 0x9A, CHR 0xE8, CHR 0xA1, CHR 0x8C, CHR 0xE5,
      CHR 0xAD, CHR 0x97, CHR 0xE7, CHR 0xAC, CHR 0xA6, CHR 0xE4, CHR 0xB8, CHR 0xB2,
      CHR 0x21]"

definition MSG_UNTERMINATED_STRING :: string where
  "MSG_UNTERMINATED_STRING = [
      CHR 0xE6, CHR 0x9C, CHR 0xAA, CHR 0xE7, CHR 0xBB, CHR 0x88, CHR 0xE6, CHR 0xAD,
      CHR 0xA2, CHR 0xE7, CHR 0x9A, CHR 0x84, CHR 0xE5, CHR 0xAD, CHR 0x97, CHR 0xE7,
      CHR 0xAC, CHR 0xA6, CHR 0xE4, CHR 0xB8, CHR 0xB2, CHR 0xE5, CHR 0xAD, CHR 0x97,
      CHR 0xE9, CHR 0x9D, CHR 0xA2, CHR 0xE9, CHR 0x87, CHR 0x8F, CHR 0xEF, CHR 0xBC,
      CHR 0x81]"

definition MSG_INCOMPLETE_CHARACTER :: string where
  "MSG_INCOMPLETE_CHARACTER = [
      CHR 0xE6, CHR 0xAD, CHR 0xA4, CHR 0xE5, CHR 0xAD, CHR 0x97, CHR 0xE7, CHR 0xAC,
      CHR 0xA6, CHR 0xE4, CHR 0xB8, CHR 0x8D, CHR 0xE5, CHR 0xAE, CHR 0x8C, CHR 0xE6,
      CHR 0x95, CHR 0xB4, CHR 0x2C, CHR 0xE7, CHR 0xBC, CHR 0xBA, CHR 0xE5, CHR 0xB0,
      CHR 0x91, CHR 0xE5, CHR 0x8F, CHR 0xB3, CHR 0xE5, CHR 0x8D, CHR 0x95, CHR 0xE5,
      CHR 0xBC, CHR 0x95, CHR 0xE5, CHR 0x8F, CHR 0xB7, CHR 0x21]"

definition MSG_MULTILINE_CHARACTER :: string where
  "MSG_MULTILINE_CHARACTER = [
      CHR 0xE4, CHR 0xB8, CHR 0x8D, CHR 0xE6, CHR 0x94, CHR 0xAF, CHR 0xE6, CHR 0x8C,
      CHR 0x81, CHR 0xE5, CHR 0xA4, CHR 0x9A, CHR 0xE8, CHR 0xA1, CHR 0x8C, CHR 0xE5,
      CHR 0xAD, CHR 0x97, CHR 0xE7, CHR 0xAC, CHR 0xA6, CHR 0x21]"

definition FMT_NOT_SINGLE_CHARACTER :: string where
  "FMT_NOT_SINGLE_CHARACTER = [
      CHR 0xE9, CHR 0x9D, CHR 0x9E, CHR 0xE5, CHR 0x8D, CHR 0x95, CHR 0xE5, CHR 0xAD,
      CHR 0x97, CHR 0xE7, CHR 0xAC, CHR 0xA6, CHR 0x54, CHR 0x6F, CHR 0x6B, CHR 0x65,
      CHR 0x6E, CHR 0x3A, CHR 0x20]"

definition FMT_UNEXPECTED_CHARACTER :: string where
  "FMT_UNEXPECTED_CHARACTER = [
      CHR 0xE6, CHR 0x84, CHR 0x8F, CHR 0xE5, CHR 0xA4, CHR 0x96, CHR 0xE5, CHR 0xAD,
      CHR 0x97, CHR 0xE7, CHR 0xAC, CHR 0xA6, CHR 0xEF, CHR 0xBC, CHR 0x9A]"

text \<open>
  The loop of \<^verbatim>\<open>string\<close>. The first component is \<open>True\<close> when the loop is left through
  the \<^verbatim>\<open>return\<close> at a newline, \<open>False\<close> when its condition fails.
\<close>

function string_loop :: "string \<Rightarrow> Scanner \<Rightarrow> bool \<times> Scanner" where
  "string_loop src s =
     (if \<not> isAtEnd src s \<and> peek src s \<noteq> CHR 0x22
      then (if peek src s = CHR 0x0A then (True, s) else string_loop src (advance s))
      else (False, s))"
  by pat_completeness auto
termination
  by (relation "measure (\<lambda>(src, s). length src - current s)")
     (auto simp: isAtEnd_def char_at_def advance_def split: if_splits)

declare string_loop.simps [simp del]

definition string :: "string \<Rightarrow> Scanner \<Rightarrow> Token \<times> Scanner" where
  "string src s =
     (case string_loop src s of
        (True, s1) \<Rightarrow> (errorToken (LiteralPtr MSG_MULTILINE_STRING) MSG_MULTILINE_STRING s1, s1)
      | (False, s1) \<Rightarrow>
          if isAtEnd src s1
          then (errorToken (LiteralPtr MSG_UNTERMINATED_STRING) MSG_UNTERMINATED_STRING s1, s1)
          else (let s2 = advance s1 in (makeToken TOKEN_STRING s2, s2)))"

text \<open>The loop of \<^verbatim>\<open>character\<close>, in the same way.\<close>

function character_loop :: "string \<Rightarrow> Scanner \<Rightarrow> bool \<times> Scanner" where
  "character_loop src s =
     (if \<not> isAtEnd src s \<and> peek src s \<noteq> CHR 0x27
      then (if peek src s = CHR 0x0A then (True, s) else character_loop src (advance s))
      else (False, s))"
  by pat_completeness auto
termination
  by (relation "measure (\<lambda>(src, s). length src - current s)")
     (auto simp: isAtEnd_def char_at_def advance_def split: if_splits)

declare character_loop.simps [simp del]

text \<open>
  The conversion \<^verbatim>\<open>%.*s\<close> with precision \<open>n\<close> and a pointer to offset \<open>p\<close> of the source:
  at most \<open>n\<close> bytes, none from the first zero byte on; a negative precision counts as
  none given.
\<close>

definition fmt_precision_s :: "string \<Rightarrow> int \<Rightarrow> nat \<Rightarrow> string" where
  "fmt_precision_s src n p =
     (let str = takeWhile (\<lambda>c. c \<noteq> NUL) (drop p src)
      in if n < 0 then str else take (nat n) str)"

text \<open>
  \<^verbatim>\<open>sprintf(message, ...)\<close> with \<open>out\<close> the bytes the format expands to: it writes them and
  a zero byte from \<^verbatim>\<open>message[0]\<close> on, with no bound. They fit when \<open>length out + 1\<close> is at
  most the size of the array; otherwise the call writes past its end.
\<close>

definition sprintf_message :: "string \<Rightarrow> fault + string" where
  "sprintf_message out =
     (if length out + 1 \<le> MESSAGE_SIZE then Inr out else Inl (MessageOverrun out))"

text \<open>
  \<^verbatim>\<open>character\<close>: \<^verbatim>\<open>int charLen = scanner.current - scanner.start - 2\<close> is a pointer
  difference converted to \<^verbatim>\<open>int\<close>.
\<close>

definition character :: "string \<Rightarrow> globals \<Rightarrow> fault + Token \<times> globals" where
  "character src g =
     (let s = scanner g in
      if isAtEnd src s
      then Inr (errorToken (LiteralPtr MSG_INCOMPLETE_CHARACTER) MSG_INCOMPLETE_CHARACTER s, g)
      else
        (case character_loop src s of
           (True, s1) \<Rightarrow>
             Inr (errorToken (LiteralPtr MSG_MULTILINE_CHARACTER) MSG_MULTILINE_CHARACTER s1,
                  g\<lparr>scanner := s1\<rparr>)
         | (False, s1) \<Rightarrow>
             if isAtEnd src s1
             then Inr (errorToken (LiteralPtr MSG_INCOMPLETE_CHARACTER)
                         MSG_INCOMPLETE_CHARACTER s1,
                       g\<lparr>scanner := s1\<rparr>)
             else
               (let s2 = advance s1;
                    charLen = c_int (int (current s2) - int (start s2) - 2)
                in if charLen = 1 \<or> charLen = 0
                   then Inr (makeToken TOKEN_CHARACTER s2, g\<lparr>scanner := s2\<rparr>)
                   else
                     (let charStart = start s2 + 1
                      in case sprintf_message
                                (FMT_NOT_SINGLE_CHARACTER @ fmt_precision_s src charLen charStart) of
                           Inl f \<Rightarrow> Inl f
                         | Inr msg \<Rightarrow>
                             Inr (errorToken MessagePtr msg s2,
                                  g\<lparr>scanner := s2, message := msg\<rparr>)))))"

definition errorTokenWithChar :: "char \<Rightarrow> globals \<Rightarrow> fault + Token \<times> globals" where
  "errorTokenWithChar c g =
     (case sprintf_message (FMT_UNEXPECTED_CHARACTER @ [c]) of
        Inl f \<Rightarrow> Inl f
      | Inr msg \<Rightarrow> Inr (errorToken MessagePtr msg (scanner g), g\<lparr>message := msg\<rparr>))"

section \<open>scanToken\<close>

text \<open>
  \<^verbatim>\<open>scanToken\<close>, in two definitions. The handlers that touch only the cursor return a
  token and a scanner; \<open>store\<close> writes that scanner back into the static state.

  \<open>scanToken_lead\<close> is the part of the function below \<^verbatim>\<open>char c = advance();\<close>: the
  two tests of the lead character \<open>c\<close> and the \<^verbatim>\<open>switch\<close>, with \<open>s2\<close> the scanner after
  that \<^verbatim>\<open>advance()\<close>. The \<^verbatim>\<open>switch\<close> has no case for the two square brackets, which
  therefore reach its \<^verbatim>\<open>default\<close>.
\<close>

definition store :: "globals \<Rightarrow> Token \<times> Scanner \<Rightarrow> fault + Token \<times> globals" where
  "store g r = Inr (fst r, g\<lparr>scanner := snd r\<rparr>)"

definition scanToken_lead ::
  "string \<Rightarrow> char \<Rightarrow> globals \<Rightarrow> Scanner \<Rightarrow> fault + Token \<times> globals" where
  "scanToken_lead src c g s2 =
  (if isAlpha c then store g (identifier_tok src s2)
   else if isDigit c then store g (number src s2)
   else if c = CHR ''('' then store g (makeToken TOKEN_LEFT_PAREN s2, s2)
   else if c = CHR '')'' then store g (makeToken TOKEN_RIGHT_PAREN s2, s2)
   else if c = CHR ''{'' then store g (makeToken TOKEN_LEFT_BRACE s2, s2)
   else if c = CHR ''}'' then store g (makeToken TOKEN_RIGHT_BRACE s2, s2)
   else if c = CHR '','' then store g (makeToken TOKEN_COMMA s2, s2)
   else if c = CHR ''.'' then store g (makeToken TOKEN_DOT s2, s2)
   else if c = CHR '';'' then store g (makeToken TOKEN_SEMICOLON s2, s2)
   else if c = CHR ''~'' then store g (makeToken TOKEN_TILDE s2, s2)
   else if c = CHR ''+'' then
     (case match src (CHR ''+'') s2 of
        (True, s3) \<Rightarrow> store g (makeToken TOKEN_PLUS_PLUS s3, s3)
      | (False, s3) \<Rightarrow>
          (case match src (CHR ''='') s3 of
             (True, s4) \<Rightarrow> store g (makeToken TOKEN_PLUS_EQUAL s4, s4)
           | (False, s4) \<Rightarrow> store g (makeToken TOKEN_PLUS s4, s4)))
   else if c = CHR ''-'' then
     (case match src (CHR ''-'') s2 of
        (True, s3) \<Rightarrow> store g (makeToken TOKEN_MINUS_MINUS s3, s3)
      | (False, s3) \<Rightarrow>
          (case match src (CHR ''='') s3 of
             (True, s4) \<Rightarrow> store g (makeToken TOKEN_MINUS_EQUAL s4, s4)
           | (False, s4) \<Rightarrow>
               (case match src (CHR ''>'') s4 of
                  (True, s5) \<Rightarrow> store g (makeToken TOKEN_MINUS_GREATER s5, s5)
                | (False, s5) \<Rightarrow> store g (makeToken TOKEN_MINUS s5, s5))))
   else if c = CHR ''*'' then
     (case match src (CHR ''='') s2 of
        (b, s3) \<Rightarrow> store g (makeToken (if b then TOKEN_STAR_EQUAL else TOKEN_STAR) s3, s3))
   else if c = CHR ''/'' then
     (case match src (CHR ''='') s2 of
        (b, s3) \<Rightarrow> store g (makeToken (if b then TOKEN_SLASH_EQUAL else TOKEN_SLASH) s3, s3))
   else if c = CHR ''%'' then
     (case match src (CHR ''='') s2 of
        (b, s3) \<Rightarrow>
          store g (makeToken (if b then TOKEN_PERCENT_EQUAL else TOKEN_PERCENT) s3, s3))
   else if c = CHR ''&'' then
     (case match src (CHR ''='') s2 of
        (True, s3) \<Rightarrow> store g (makeToken TOKEN_AMPER_EQUAL s3, s3)
      | (False, s3) \<Rightarrow>
          (case match src (CHR ''&'') s3 of
             (True, s4) \<Rightarrow> store g (makeToken TOKEN_AMPER_AMPER s4, s4)
           | (False, s4) \<Rightarrow> store g (makeToken TOKEN_AMPER s4, s4)))
   else if c = CHR ''|'' then
     (case match src (CHR ''='') s2 of
        (True, s3) \<Rightarrow> store g (makeToken TOKEN_PIPE_EQUAL s3, s3)
      | (False, s3) \<Rightarrow>
          (case match src (CHR ''|'') s3 of
             (True, s4) \<Rightarrow> store g (makeToken TOKEN_PIPE_PIPE s4, s4)
           | (False, s4) \<Rightarrow> store g (makeToken TOKEN_PIPE s4, s4)))
   else if c = CHR ''^'' then
     (case match src (CHR ''='') s2 of
        (b, s3) \<Rightarrow> store g (makeToken (if b then TOKEN_HAT_EQUAL else TOKEN_HAT) s3, s3))
   else if c = CHR ''='' then
     (case match src (CHR ''='') s2 of
        (b, s3) \<Rightarrow> store g (makeToken (if b then TOKEN_EQUAL_EQUAL else TOKEN_EQUAL) s3, s3))
   else if c = CHR ''!'' then
     (case match src (CHR ''='') s2 of
        (b, s3) \<Rightarrow> store g (makeToken (if b then TOKEN_BANG_EQUAL else TOKEN_BANG) s3, s3))
   else if c = CHR ''<'' then
     (case match src (CHR ''='') s2 of
        (True, s3) \<Rightarrow> store g (makeToken TOKEN_LESS_EQUAL s3, s3)
      | (False, s3) \<Rightarrow>
          (case match src (CHR ''<'') s3 of
             (True, s4) \<Rightarrow> store g (makeToken TOKEN_LESS_LESS s4, s4)
           | (False, s4) \<Rightarrow> store g (makeToken TOKEN_LESS s4, s4)))
   else if c = CHR ''>'' then
     (case match src (CHR ''='') s2 of
        (True, s3) \<Rightarrow> store g (makeToken TOKEN_GREATER_EQUAL s3, s3)
      | (False, s3) \<Rightarrow>
          (case match src (CHR ''>'') s3 of
             (True, s4) \<Rightarrow> store g (makeToken TOKEN_GREATER_GREATER s4, s4)
           | (False, s4) \<Rightarrow> store g (makeToken TOKEN_GREATER s4, s4)))
   else if c = CHR 0x22 then store g (string src s2)
   else if c = CHR 0x27 then character src (g\<lparr>scanner := s2\<rparr>)
   else errorTokenWithChar c (g\<lparr>scanner := s2\<rparr>))"

definition scanToken :: "string \<Rightarrow> globals \<Rightarrow> fault + Token \<times> globals" where
  "scanToken src g =
     (let s0 = skipWhitespace src (scanner g);
          s1 = s0\<lparr>start := current s0\<rparr>
      in
      if isAtEnd src s1 then store g (makeToken TOKEN_EOF s1, s1)
      else scanToken_lead src (peek src s1) g (advance s1))"

text \<open>
  The text a token covers, read the way \<^verbatim>\<open>run\<close> of \<^verbatim>\<open>main.c\<close> prints it
  (\<^verbatim>\<open>printf("%.*s", token.length, token.start)\<close>) in the state the call left: the
  conversion \<^verbatim>\<open>%.*s\<close> again, applied to the bytes the token's pointer points to.
\<close>

definition token_text :: "string \<Rightarrow> globals \<Rightarrow> Token \<Rightarrow> string" where
  "token_text src g tok =
     (case tok_start tok of
        SourcePtr p \<Rightarrow> fmt_precision_s src (tok_length tok) p
      | MessagePtr \<Rightarrow> fmt_precision_s (message g) (tok_length tok) 0
      | LiteralPtr lit \<Rightarrow> fmt_precision_s lit (tok_length tok) 0)"

section \<open>Repeated calls\<close>

text \<open>
  \<^verbatim>\<open>run\<close> of \<^verbatim>\<open>main.c\<close> calls \<^verbatim>\<open>scanToken\<close> again and again on the same buffer.
  \<open>scan_n n\<close> is the state after \<open>n\<close> such calls, if each of them returned a token, and
  the fault of the first call that did not.
\<close>

fun scan_n :: "nat \<Rightarrow> string \<Rightarrow> globals \<Rightarrow> fault + globals" where
  "scan_n 0 src g = Inr g"
| "scan_n (Suc n) src g =
     (case scanToken src g of
        Inl f \<Rightarrow> Inl f
      | Inr (tok, g') \<Rightarrow> scan_n n src g')"

section \<open>The operators of the specification\<close>

text \<open>
  Written from the specification, not from the code: the operators of its token
  enumeration, \<open>+ ++ += - -- -= -> * *= / /= % %= & &= && | |= || ^ ^= = == ! != < <= <<
  > >= >>\<close>, by their one-character and two-character forms, and the longest-match rule:
  the two-character form when the lead and the next character make one, the
  one-character form of the lead otherwise. \<open>longest_operator\<close> gives the tag and the number
  of characters of the operator that starts with \<open>c\<close> when \<open>d\<close> is the next character.
\<close>

definition single_operators :: "(char \<times> TokenType) list" where
  "single_operators =
     [(CHR ''+'', TOKEN_PLUS), (CHR ''-'', TOKEN_MINUS), (CHR ''*'', TOKEN_STAR),
      (CHR ''/'', TOKEN_SLASH), (CHR ''%'', TOKEN_PERCENT), (CHR ''&'', TOKEN_AMPER),
      (CHR ''|'', TOKEN_PIPE), (CHR ''^'', TOKEN_HAT), (CHR ''='', TOKEN_EQUAL),
      (CHR ''!'', TOKEN_BANG), (CHR ''<'', TOKEN_LESS), (CHR ''>'', TOKEN_GREATER)]"

definition double_operators :: "(string \<times> TokenType) list" where
  "double_operators =
     [(''++'', TOKEN_PLUS_PLUS), (''+='', TOKEN_PLUS_EQUAL),
      (''--'', TOKEN_MINUS_MINUS), (''-='', TOKEN_MINUS_EQUAL), (''->'', TOKEN_MINUS_GREATER),
      (''*='', TOKEN_STAR_EQUAL), (''/='', TOKEN_SLASH_EQUAL), (''%='', TOKEN_PERCENT_EQUAL),
      (''&='', TOKEN_AMPER_EQUAL), (''&&'', TOKEN_AMPER_AMPER),
      (''|='', TOKEN_PIPE_EQUAL), (''||'', TOKEN_PIPE_PIPE),
      (''^='', TOKEN_HAT_EQUAL), (''=='', TOKEN_EQUAL_EQUAL), (''!='', TOKEN_BANG_EQUAL),
      (''<='', TOKEN_LESS_EQUAL), (''<<'', TOKEN_LESS_LESS),
      (''>='', TOKEN_GREATER_EQUAL), (''>>'', TOKEN_GREATER_GREATER)]"

definition longest_operator :: "char \<Rightarrow> char \<Rightarrow> (TokenType \<times> nat) option" where
  "longest_operator c d =
     (case map_of double_operators [c, d] of
        Some t \<Rightarrow> Some (t, 2)
      | None \<Rightarrow> (case map_of single_operators c of
                   Some t \<Rightarrow> Some (t, 1)
                 | None \<Rightarrow> None))"

section \<open>The reserved words of the specification\<close>

text \<open>
  Written from the specification, not from the code: the 27 keywords of its token
  enumeration, each with its tag, and classification by equality of the whole lexeme: the
  tag of the reserved word that the lexeme is equal to, \<open>TOKEN_IDENTIFIER\<close> when there is
  none.
\<close>

definition reserved_words :: "(string \<times> TokenType) list" where
  "reserved_words =
     [(''signed'', TOKEN_SIGNED), (''unsigned'', TOKEN_UNSIGNED), (''char'', TOKEN_CHAR),
      (''short'', TOKEN_SHORT), (''int'', TOKEN_INT), (''long'', TOKEN_LONG),
      (''float'', TOKEN_FLOAT), (''double'', TOKEN_DOUBLE), (''struct'', TOKEN_STRUCT),
      (''union'', TOKEN_UNION), (''enum'', TOKEN_ENUM), (''void'', TOKEN_VOID),
      (''if'', TOKEN_IF), (''else'', TOKEN_ELSE), (''switch'', TOKEN_SWITCH),
      (''case'', TOKEN_CASE), (''default'', TOKEN_DEFAULT), (''while'', TOKEN_WHILE),
      (''do'', TOKEN_DO), (''for'', TOKEN_FOR), (''break'', TOKEN_BREAK),
      (''continue'', TOKEN_CONTINUE), (''return'', TOKEN_RETURN), (''goto'', TOKEN_GOTO),
      (''const'', TOKEN_CONST), (''sizeof'', TOKEN_SIZEOF), (''typedef'', TOKEN_TYPEDEF)]"

definition keyword_tag :: "string \<Rightarrow> TokenType" where
  "keyword_tag w = (case map_of reserved_words w of Some k \<Rightarrow> k | None \<Rightarrow> TOKEN_IDENTIFIER)"

section \<open>Conversion to int\<close>

lemma c_int_id: "- 2147483648 \<le> x \<Longrightarrow> x < 2147483648 \<Longrightarrow> c_int x = x"
  by (simp add: c_int_def)

lemma c_int_nat: "n < 2147483648 \<Longrightarrow> c_int (int n) = int n"
  by (simp add: c_int_id)

lemma c_int_diff:
  "a \<le> b \<Longrightarrow> b < 2147483648 \<Longrightarrow> c_int (int b - int a) = int (b - a)"
  by (simp add: c_int_id of_nat_diff)

section \<open>Reading the buffer\<close>

lemma char_at_mid [simp]: "char_at (pre @ c # rest) (length pre) = c"
  by (simp add: char_at_def)

lemma char_at_end [simp]: "char_at src (length src) = NUL"
  by (simp add: char_at_def)

lemma char_at_append_right [simp]: "char_at (xs @ ys) (length xs + i) = char_at ys i"
  by (simp add: char_at_def nth_append)

lemma char_at_append_left: "i < length xs \<Longrightarrow> char_at (xs @ ys) i = xs ! i"
  by (simp add: char_at_def nth_append)

lemma char_at_Nil [simp]: "char_at [] i = NUL"
  by (simp add: char_at_def)

lemma char_at_Cons_0 [simp]: "char_at (c # xs) 0 = c"
  by (simp add: char_at_def)

lemma char_at_Cons_Suc [simp]: "char_at (c # xs) (Suc i) = char_at xs i"
  by (simp add: char_at_def)


lemma char_at_hd: "char_at xs 0 = (if xs = [] then NUL else hd xs)"
  by (cases xs) simp_all

lemma bytes_at_append:
  "k + n \<le> length w \<Longrightarrow> bytes_at (pre @ w @ rest) (length pre + k) n = take n (drop k w)"
  by (rule nth_equalityI) (simp_all add: bytes_at_def add.assoc char_at_append_left)

section \<open>Character classes\<close>

lemma isAlpha_not_NUL: "isAlpha c \<Longrightarrow> c \<noteq> NUL"
  by (auto simp: isAlpha_def NUL_def)

lemma isDigit_not_NUL: "isDigit c \<Longrightarrow> c \<noteq> NUL"
  by (auto simp: isDigit_def NUL_def)

lemma not_isAlpha_NUL [simp]: "\<not> isAlpha NUL"
  by (auto simp: isAlpha_def NUL_def)

lemma not_isDigit_NUL [simp]: "\<not> isDigit NUL"
  by (auto simp: isDigit_def NUL_def)

section \<open>Stepping through a run of characters\<close>

lemma current_update_same: "current s = n \<Longrightarrow> s\<lparr>current := n\<rparr> = s"
  by auto

lemma identifier_loop_skip:
  "\<forall>c\<in>set w. isAlpha c \<or> isDigit c \<Longrightarrow> current s = length pre \<Longrightarrow>
   identifier_loop (pre @ w @ rest) s =
   identifier_loop (pre @ w @ rest) (s\<lparr>current := length pre + length w\<rparr>)"
proof (induction w arbitrary: pre s)
  case Nil
  then show ?case by (simp add: current_update_same)
next
  case (Cons a w)
  have "identifier_loop (pre @ (a # w) @ rest) s =
        identifier_loop ((pre @ [a]) @ w @ rest) (advance s)"
    using Cons.prems by (subst identifier_loop.simps) (simp add: peek_def)
  also have "\<dots> = identifier_loop ((pre @ [a]) @ w @ rest)
                    ((advance s)\<lparr>current := length (pre @ [a]) + length w\<rparr>)"
    using Cons.prems by (intro Cons.IH) (simp_all add: advance_def)
  finally show ?case by (simp add: advance_def)
qed

lemma identifier_loop_stop:
  "\<not> (isAlpha (peek src s) \<or> isDigit (peek src s)) \<Longrightarrow> identifier_loop src s = s"
  by (subst identifier_loop.simps) simp

lemma digits_skip:
  "\<forall>c\<in>set w. isDigit c \<Longrightarrow> current s = length pre \<Longrightarrow>
   digits (pre @ w @ rest) s = digits (pre @ w @ rest) (s\<lparr>current := length pre + length w\<rparr>)"
proof (induction w arbitrary: pre s)
  case Nil
  then show ?case by (simp add: current_update_same)
next
  case (Cons a w)
  have "digits (pre @ (a # w) @ rest) s = digits ((pre @ [a]) @ w @ rest) (advance s)"
    using Cons.prems by (subst digits.simps) (simp add: peek_def)
  also have "\<dots> = digits ((pre @ [a]) @ w @ rest)
                    ((advance s)\<lparr>current := length (pre @ [a]) + length w\<rparr>)"
    using Cons.prems by (intro Cons.IH) (simp_all add: advance_def)
  finally show ?case by (simp add: advance_def)
qed

lemma digits_stop: "\<not> isDigit (peek src s) \<Longrightarrow> digits src s = s"
  by (subst digits.simps) simp

lemma string_loop_skip:
  "\<forall>c\<in>set w. c \<noteq> NUL \<and> c \<noteq> CHR 0x22 \<and> c \<noteq> CHR 0x0A \<Longrightarrow> current s = length pre \<Longrightarrow>
   string_loop (pre @ w @ rest) s =
   string_loop (pre @ w @ rest) (s\<lparr>current := length pre + length w\<rparr>)"
proof (induction w arbitrary: pre s)
  case Nil
  then show ?case by (simp add: current_update_same)
next
  case (Cons a w)
  have "string_loop (pre @ (a # w) @ rest) s = string_loop ((pre @ [a]) @ w @ rest) (advance s)"
    using Cons.prems by (subst string_loop.simps) (simp add: peek_def isAtEnd_def)
  also have "\<dots> = string_loop ((pre @ [a]) @ w @ rest)
                    ((advance s)\<lparr>current := length (pre @ [a]) + length w\<rparr>)"
    using Cons.prems by (intro Cons.IH) (simp_all add: advance_def)
  finally show ?case by (simp add: advance_def)
qed

lemma character_loop_skip:
  "\<forall>c\<in>set w. c \<noteq> NUL \<and> c \<noteq> CHR 0x27 \<and> c \<noteq> CHR 0x0A \<Longrightarrow> current s = length pre \<Longrightarrow>
   character_loop (pre @ w @ rest) s =
   character_loop (pre @ w @ rest) (s\<lparr>current := length pre + length w\<rparr>)"
proof (induction w arbitrary: pre s)
  case Nil
  then show ?case by (simp add: current_update_same)
next
  case (Cons a w)
  have "character_loop (pre @ (a # w) @ rest) s =
        character_loop ((pre @ [a]) @ w @ rest) (advance s)"
    using Cons.prems by (subst character_loop.simps) (simp add: peek_def isAtEnd_def)
  also have "\<dots> = character_loop ((pre @ [a]) @ w @ rest)
                    ((advance s)\<lparr>current := length (pre @ [a]) + length w\<rparr>)"
    using Cons.prems by (intro Cons.IH) (simp_all add: advance_def)
  finally show ?case by (simp add: advance_def)
qed

lemma skipComment_skip:
  "\<forall>c\<in>set w. c \<noteq> NUL \<and> c \<noteq> CHR 0x0A \<Longrightarrow> current s = length pre \<Longrightarrow>
   skipComment (pre @ w @ rest) s =
   skipComment (pre @ w @ rest) (s\<lparr>current := length pre + length w\<rparr>)"
proof (induction w arbitrary: pre s)
  case Nil
  then show ?case by (simp add: current_update_same)
next
  case (Cons a w)
  have "skipComment (pre @ (a # w) @ rest) s =
        skipComment ((pre @ [a]) @ w @ rest) (advance s)"
    using Cons.prems by (subst skipComment.simps) (simp add: peek_def isAtEnd_def)
  also have "\<dots> = skipComment ((pre @ [a]) @ w @ rest)
                    ((advance s)\<lparr>current := length (pre @ [a]) + length w\<rparr>)"
    using Cons.prems by (intro Cons.IH) (simp_all add: advance_def)
  finally show ?case by (simp add: advance_def)
qed

section \<open>Fields left alone, and monotonicity of the cursor\<close>

lemma skipComment_fields [simp]:
  "line (skipComment src s) = line s" "start (skipComment src s) = start s"
  by (induction src s rule: skipComment.induct; subst skipComment.simps; simp add: advance_def)+


lemma skipWhitespace_fields [simp]:
  "line (skipWhitespace src s) = line s" "start (skipWhitespace src s) = start s"
  by (induction src s rule: skipWhitespace.induct; subst skipWhitespace.simps;
      simp add: advance_def Let_def)+


lemma skipWhitespace_stop:
  "peek src s \<notin> {CHR '' '', CHR 0x0D, CHR 0x09, CHR 0x0A, CHR ''/''} \<Longrightarrow> skipWhitespace src s = s"
  by (subst skipWhitespace.simps) (simp add: Let_def)

lemma skipWhitespace_slash:
  "peek src s = CHR ''/'' \<Longrightarrow> peekNext src s \<noteq> CHR ''/'' \<Longrightarrow> skipWhitespace src s = s"
  by (subst skipWhitespace.simps) (simp add: Let_def)

lemma skipWhitespace_at_end: "isAtEnd src s \<Longrightarrow> skipWhitespace src s = s"
  by (rule skipWhitespace_stop) (simp add: isAtEnd_def peek_def NUL_def)

lemma identifier_loop_fields [simp]:
  "line (identifier_loop src s) = line s" "start (identifier_loop src s) = start s"
  by (induction src s rule: identifier_loop.induct; subst identifier_loop.simps;
      simp add: advance_def)+


lemma digits_fields [simp]:
  "line (digits src s) = line s" "start (digits src s) = start s"
  by (induction src s rule: digits.induct; subst digits.simps; simp add: advance_def)+


lemma string_loop_fields [simp]:
  "line (snd (string_loop src s)) = line s" "start (snd (string_loop src s)) = start s"
  by (induction src s rule: string_loop.induct; subst string_loop.simps;
      simp add: advance_def)+


lemma character_loop_fields [simp]:
  "line (snd (character_loop src s)) = line s" "start (snd (character_loop src s)) = start s"
  by (induction src s rule: character_loop.induct; subst character_loop.simps;
      simp add: advance_def)+


lemma isAtEnd_current: "current s = current t \<Longrightarrow> isAtEnd src s = isAtEnd src t"
  by (simp add: isAtEnd_def)





lemma match_mono: "current s \<le> current (snd (match src c s))"
  by (simp add: match_def)

lemma case_match:
  "(case match src e s of (b, s') \<Rightarrow> f b s') =
   (if peek src s = e \<and> e \<noteq> NUL then f True (advance s) else f False s)"
  by (auto simp: match_def isAtEnd_def peek_def advance_def)


lemma scanToken_lead_other:
  assumes "\<not> isAlpha c" "\<not> isDigit c" "c \<notin> set ''(){},.;~+-*/%&|^=!<>''"
  shows "scanToken_lead src c g s2 =
         (if c = CHR 0x22 then store g (string src s2)
          else if c = CHR 0x27 then character src (g\<lparr>scanner := s2\<rparr>)
          else errorTokenWithChar c (g\<lparr>scanner := s2\<rparr>))"
  using assms by (simp add: scanToken_lead_def)

lemma errorTokenWithChar_returns:
  "errorTokenWithChar c g =
     Inr (errorToken MessagePtr (FMT_UNEXPECTED_CHARACTER @ [c]) (scanner g),
          g\<lparr>message := FMT_UNEXPECTED_CHARACTER @ [c]\<rparr>)"
  by (simp add: errorTokenWithChar_def sprintf_message_def FMT_UNEXPECTED_CHARACTER_def
                MESSAGE_SIZE_def)







lemma scanToken_at_end:
  assumes "isAtEnd src (skipWhitespace src (scanner g))"
  shows "scanToken src g =
     Inr (\<lparr>tok_type = TOKEN_EOF, tok_start = SourcePtr (current (skipWhitespace src (scanner g))),
       tok_length = 0, tok_line = line (scanner g)\<rparr>,
          g\<lparr>scanner := (skipWhitespace src (scanner g))
                           \<lparr>start := current (skipWhitespace src (scanner g))\<rparr>\<rparr>)"
  using assms by (simp add: scanToken_def Let_def isAtEnd_def store_def makeToken_def c_int_def)



lemma scan_n_at_end:
  assumes "isAtEnd src (scanner g)" "start (scanner g) = current (scanner g)"
  shows "scan_n n src g = Inr g"
proof (induction n)
  case 0
  show ?case by simp
next
  case (Suc n)
  from assms have "\<exists>tok. scanToken src g = Inr (tok, g)"
    by (simp add: scanToken_at_end skipWhitespace_at_end)
  with Suc show ?case by auto
qed


section \<open>A call that starts at a token\<close>

lemma Scanner_literal:
  "s\<lparr>start := a, current := b\<rparr> = \<lparr>start = a, current = b, line = line s\<rparr>"
  by (cases s) simp

lemma scanToken_at_lead:
  assumes "current (scanner g) = length pre"
    and "c \<notin> {CHR '' '', CHR 0x0D, CHR 0x09, CHR 0x0A, CHR ''/'', NUL}"
  shows "scanToken (pre @ c # rest) g =
         scanToken_lead (pre @ c # rest) c g
           \<lparr>start = length pre, current = Suc (length pre), line = line (scanner g)\<rparr>"
proof -
  from assms have "skipWhitespace (pre @ c # rest) (scanner g) = scanner g"
    by (intro skipWhitespace_stop) (simp add: peek_def)
  with assms show ?thesis
    by (simp add: scanToken_def Let_def isAtEnd_def peek_def advance_def Scanner_literal)
qed

lemma scanToken_at_slash:
  assumes "current (scanner g) = length pre" and "char_at rest 0 \<noteq> CHR ''/''"
  shows "scanToken (pre @ CHR ''/'' # rest) g =
         scanToken_lead (pre @ CHR ''/'' # rest) (CHR ''/'') g
           \<lparr>start = length pre, current = Suc (length pre), line = line (scanner g)\<rparr>"
proof -
  have "char_at (pre @ CHR ''/'' # rest) (Suc (length pre)) = char_at rest 0"
    using char_at_append_right [of "pre @ [CHR ''/'']" rest 0] by simp
  with assms have "skipWhitespace (pre @ CHR ''/'' # rest) (scanner g) = scanner g"
    by (intro skipWhitespace_slash) (simp_all add: peek_def peekNext_def isAtEnd_def NUL_def)
  with assms show ?thesis
    by (simp add: scanToken_def Let_def isAtEnd_def peek_def advance_def NUL_def Scanner_literal)
qed

section \<open>String literals\<close>

lemma string_loop_body:
  assumes "\<forall>c\<in>set body. c \<noteq> NUL \<and> c \<noteq> CHR 0x22 \<and> c \<noteq> CHR 0x0A"
    and "current s = Suc (length pre)"
  shows "string_loop (pre @ q # body @ rest) s =
         string_loop (pre @ q # body @ rest) (s\<lparr>current := Suc (length pre) + length body\<rparr>)"
  using string_loop_skip [of body s "pre @ [q]" rest] assms by simp

lemma char_at_after_lead [simp]:
  "char_at (pre @ q # rest) (Suc (length pre)) = char_at rest 0"
  using char_at_append_right [of "pre @ [q]" rest 0] by simp

lemma char_at_after_body [simp]:
  "char_at (pre @ q # body @ rest) (Suc (length pre + length body)) = char_at rest 0"
  using char_at_append_right [of "pre @ q # body" rest 0] by simp

lemma string_closed:
  assumes "\<forall>c\<in>set body. c \<noteq> NUL \<and> c \<noteq> CHR 0x22 \<and> c \<noteq> CHR 0x0A"
    and "current s = Suc (length pre)"
  shows "string (pre @ CHR 0x22 # body @ CHR 0x22 # rest) s =
         (makeToken TOKEN_STRING (s\<lparr>current := length pre + length body + 2\<rparr>),
          s\<lparr>current := length pre + length body + 2\<rparr>)"
proof -
  let ?src = "pre @ CHR 0x22 # body @ CHR 0x22 # rest"
  let ?s1 = "s\<lparr>current := Suc (length pre) + length body\<rparr>"
  have "string_loop ?src s = string_loop ?src ?s1"
    using assms by (rule string_loop_body)
  also have "\<dots> = (False, ?s1)"
    by (subst string_loop.simps) (simp add: peek_def isAtEnd_def)
  finally show ?thesis
    by (simp add: string_def isAtEnd_def NUL_def advance_def Let_def)
qed

lemma string_unterminated:
  assumes "\<forall>c\<in>set body. c \<noteq> NUL \<and> c \<noteq> CHR 0x22 \<and> c \<noteq> CHR 0x0A"
    and "current s = Suc (length pre)"
  shows "string (pre @ CHR 0x22 # body) s =
         (errorToken (LiteralPtr MSG_UNTERMINATED_STRING) MSG_UNTERMINATED_STRING s,
          s\<lparr>current := length pre + length body + 1\<rparr>)"
proof -
  let ?src = "pre @ CHR 0x22 # body"
  let ?s1 = "s\<lparr>current := Suc (length pre) + length body\<rparr>"
  have "string_loop ?src s = string_loop ?src ?s1"
    using string_loop_body [OF assms, of "CHR 0x22" "[]"] by simp
  also have "\<dots> = (False, ?s1)"
    using char_at_after_body [of pre "CHR 0x22" body "[]"]
    by (subst string_loop.simps) (simp add: peek_def isAtEnd_def)
  finally show ?thesis
    using char_at_after_body [of pre "CHR 0x22" body "[]"]
    by (simp add: string_def isAtEnd_def errorToken_def)
qed


lemma scanToken_lead_dquote:
  "scanToken_lead src (CHR 0x22) g s2 = store g (string src s2)"
  by (simp add: scanToken_lead_def isAlpha_def isDigit_def)

lemma scanToken_lead_quote:
  "scanToken_lead src (CHR 0x27) g s2 = character src (g\<lparr>scanner := s2\<rparr>)"
  by (simp add: scanToken_lead_def isAlpha_def isDigit_def)

lemma strlen_no_NUL: "NUL \<notin> set s \<Longrightarrow> strlen s = length s"
  by (induction s) (auto simp: strlen_def)

lemma strlen_messages:
  "strlen MSG_MULTILINE_STRING = 25" "strlen MSG_UNTERMINATED_STRING = 33"
  "strlen MSG_INCOMPLETE_CHARACTER = 38" "strlen MSG_MULTILINE_CHARACTER = 22"
  "length FMT_NOT_SINGLE_CHARACTER = 19" "length FMT_UNEXPECTED_CHARACTER = 15"
  by (simp_all add: strlen_def NUL_def MSG_MULTILINE_STRING_def MSG_UNTERMINATED_STRING_def
      MSG_INCOMPLETE_CHARACTER_def MSG_MULTILINE_CHARACTER_def FMT_NOT_SINGLE_CHARACTER_def
      FMT_UNEXPECTED_CHARACTER_def)

lemma c_int_messages:
  "c_int (int (strlen MSG_MULTILINE_STRING)) = int (strlen MSG_MULTILINE_STRING)"
  "c_int (int (strlen MSG_UNTERMINATED_STRING)) = int (strlen MSG_UNTERMINATED_STRING)"
  "c_int (int (strlen MSG_INCOMPLETE_CHARACTER)) = int (strlen MSG_INCOMPLETE_CHARACTER)"
  "c_int (int (strlen MSG_MULTILINE_CHARACTER)) = int (strlen MSG_MULTILINE_CHARACTER)"
  by (simp_all add: strlen_messages c_int_def)

section \<open>Character literals\<close>

lemma character_loop_body:
  assumes "\<forall>c\<in>set body. c \<noteq> NUL \<and> c \<noteq> CHR 0x27 \<and> c \<noteq> CHR 0x0A"
    and "current s = Suc (length pre)"
  shows "character_loop (pre @ q # body @ rest) s =
         character_loop (pre @ q # body @ rest) (s\<lparr>current := Suc (length pre) + length body\<rparr>)"
  using character_loop_skip [of body s "pre @ [q]" rest] assms by simp

lemma character_loop_closed:
  assumes "\<forall>c\<in>set body. c \<noteq> NUL \<and> c \<noteq> CHR 0x27 \<and> c \<noteq> CHR 0x0A"
    and "current s = Suc (length pre)"
  shows "character_loop (pre @ CHR 0x27 # body @ CHR 0x27 # rest) s =
         (False, s\<lparr>current := Suc (length pre) + length body\<rparr>)"
proof -
  let ?src = "pre @ CHR 0x27 # body @ CHR 0x27 # rest"
  let ?s1 = "s\<lparr>current := Suc (length pre) + length body\<rparr>"
  have "character_loop ?src s = character_loop ?src ?s1"
    using assms by (rule character_loop_body)
  also have "\<dots> = (False, ?s1)"
    by (subst character_loop.simps) (simp add: peek_def isAtEnd_def)
  finally show ?thesis .
qed

lemma fmt_precision_s_body:
  assumes "NUL \<notin> set body"
  shows "fmt_precision_s (pre @ q # body @ rest) (int (length body)) (Suc (length pre)) = body"
proof -
  have "drop (Suc (length pre)) (pre @ q # body @ rest) = body @ rest"
    by simp
  moreover have "takeWhile (\<lambda>c. c \<noteq> NUL) (body @ rest) = body @ takeWhile (\<lambda>c. c \<noteq> NUL) rest"
    using assms by (intro takeWhile_append2) auto
  ultimately show ?thesis
    by (simp add: fmt_precision_s_def)
qed

text \<open>
  A closed literal whose body is shorter than \<open>2^31\<close> bytes: a \<open>TOKEN_CHARACTER\<close> for a body
  of at most one byte; an error whose message ends with the body when the message fits
  into \<^verbatim>\<open>message\<close>, which is when the body has at most 30 bytes; and a write past the end
  of \<^verbatim>\<open>message\<close> for every longer body.
\<close>

lemma fmt_precision_s_whole:
  assumes "NUL \<notin> set w"
  shows "fmt_precision_s (pre @ w @ rest) (int (length w)) (length pre) = w"
proof -
  have "takeWhile (\<lambda>c. c \<noteq> NUL) (w @ rest) = w @ takeWhile (\<lambda>c. c \<noteq> NUL) rest"
    using assms by (intro takeWhile_append2) auto
  then show ?thesis
    by (simp add: fmt_precision_s_def)
qed

lemma fmt_precision_s_all:
  assumes "NUL \<notin> set m" and "length m \<le> n"
  shows "fmt_precision_s m (int n) 0 = m"
proof -
  have tw: "takeWhile (\<lambda>c. c \<noteq> NUL) m = m"
    using assms(1) by (intro takeWhile_eq_all_conv [THEN iffD2]) auto
  show ?thesis
    using assms(2) by (simp add: fmt_precision_s_def tw)
qed

lemma class_not_NUL: "isAlpha c \<or> isDigit c \<Longrightarrow> c \<noteq> NUL"
  by (auto simp: isAlpha_def isDigit_def NUL_def)

lemma messages_no_NUL:
  "NUL \<notin> set MSG_MULTILINE_STRING" "NUL \<notin> set MSG_UNTERMINATED_STRING"
  "NUL \<notin> set MSG_INCOMPLETE_CHARACTER" "NUL \<notin> set MSG_MULTILINE_CHARACTER"
  "NUL \<notin> set FMT_NOT_SINGLE_CHARACTER" "NUL \<notin> set FMT_UNEXPECTED_CHARACTER"
  by (simp_all add: NUL_def MSG_MULTILINE_STRING_def MSG_UNTERMINATED_STRING_def
      MSG_INCOMPLETE_CHARACTER_def MSG_MULTILINE_CHARACTER_def FMT_NOT_SINGLE_CHARACTER_def
      FMT_UNEXPECTED_CHARACTER_def)

lemma character_closed:
  assumes body: "\<forall>c\<in>set body. c \<noteq> NUL \<and> c \<noteq> CHR 0x27 \<and> c \<noteq> CHR 0x0A"
    and s: "scanner g = \<lparr>start = length pre, current = Suc (length pre), line = l\<rparr>"
    and bound: "length body < 2147483648"
  shows "character (pre @ CHR 0x27 # body @ CHR 0x27 # rest) g =
     (if length body \<le> 1
      then Inr (\<lparr>tok_type = TOKEN_CHARACTER, tok_start = SourcePtr (length pre),
                 tok_length = int (length body) + 2, tok_line = l\<rparr>,
                g\<lparr>scanner := \<lparr>start = length pre, current = length pre + length body + 2,
                                line = l\<rparr>\<rparr>)
      else if length FMT_NOT_SINGLE_CHARACTER + length body < MESSAGE_SIZE
      then Inr (\<lparr>tok_type = TOKEN_ERROR, tok_start = MessagePtr,
                 tok_length = int (length FMT_NOT_SINGLE_CHARACTER + length body),
                 tok_line = l\<rparr>,
                g\<lparr>scanner := \<lparr>start = length pre, current = length pre + length body + 2,
                                line = l\<rparr>,
                  message := FMT_NOT_SINGLE_CHARACTER @ body\<rparr>)
      else Inl (MessageOverrun (FMT_NOT_SINGLE_CHARACTER @ body)))"
proof -
  let ?src = "pre @ CHR 0x27 # body @ CHR 0x27 # rest"
  have nn: "NUL \<notin> set body" using body by auto
  have first: "\<not> isAtEnd ?src (scanner g)"
    using s body by (cases body) (simp_all add: isAtEnd_def NUL_def)
  have loop: "character_loop ?src (scanner g) =
              (False, \<lparr>start = length pre, current = Suc (length pre) + length body, line = l\<rparr>)"
    using character_loop_closed [OF body, of "scanner g" pre rest] s by simp
  have fmt: "fmt_precision_s ?src (int (length body)) (Suc (length pre)) = body"
    using nn by (rule fmt_precision_s_body)
  have len: "strlen (FMT_NOT_SINGLE_CHARACTER @ body) = length FMT_NOT_SINGLE_CHARACTER + length body"
    using nn by (subst strlen_no_NUL) (auto simp: FMT_NOT_SINGLE_CHARACTER_def NUL_def)
  have close: "char_at ?src (Suc (length pre + length body)) = CHR 0x27"
    by simp
  have charLen: "c_int (int (length body)) = int (length body)"
    using bound by (rule c_int_nat)
  note defs = character_def Let_def isAtEnd_def NUL_def advance_def makeToken_def errorToken_def
  consider (empty) "body = []" | (one) a where "body = [a]" | (more) "2 \<le> length body"
    by (cases body; cases "tl body") auto
  then show ?thesis
  proof cases
    case empty
    with first loop close show ?thesis by (simp add: defs c_int_def)
  next
    case one
    with first loop close show ?thesis by (simp add: defs c_int_def)
  next
    case more
    then have ne: "body \<noteq> []" by auto
    show ?thesis
    proof (cases "length FMT_NOT_SINGLE_CHARACTER + length body < MESSAGE_SIZE")
      case True
      then have "c_int (int (length FMT_NOT_SINGLE_CHARACTER + length body)) =
                 int (length FMT_NOT_SINGLE_CHARACTER + length body)"
        by (intro c_int_nat) (simp add: MESSAGE_SIZE_def)
      with True ne more first loop close fmt len charLen show ?thesis
        by (simp add: defs sprintf_message_def)
    next
      case False
      with ne more first loop close fmt len charLen show ?thesis
        by (simp add: defs sprintf_message_def)
    qed
  qed
qed



section \<open>Literals through scanToken\<close>

lemma scanToken_string_closed:
  assumes "\<forall>c\<in>set body. c \<noteq> NUL \<and> c \<noteq> CHR 0x22 \<and> c \<noteq> CHR 0x0A"
    and "current (scanner g) = length pre"
    and "length body + 2 < 2147483648"
  shows "scanToken (pre @ CHR 0x22 # body @ CHR 0x22 # rest) g =
     Inr (\<lparr>tok_type = TOKEN_STRING, tok_start = SourcePtr (length pre),
            tok_length = int (length body) + 2, tok_line = line (scanner g)\<rparr>,
          g\<lparr>scanner := \<lparr>start = length pre, current = length pre + length body + 2,
                          line = line (scanner g)\<rparr>\<rparr>)"
proof -
  from assms(3) have "c_int (2 + int (length body)) = 2 + int (length body)"
    by (intro c_int_id) simp_all
  with assms(1,2) show ?thesis
    by (simp add: scanToken_at_lead NUL_def scanToken_lead_dquote string_closed store_def
        makeToken_def)
qed

lemma scanToken_string_unterminated:
  assumes "\<forall>c\<in>set body. c \<noteq> NUL \<and> c \<noteq> CHR 0x22 \<and> c \<noteq> CHR 0x0A"
    and "current (scanner g) = length pre"
  shows "scanToken (pre @ CHR 0x22 # body) g =
     Inr (\<lparr>tok_type = TOKEN_ERROR, tok_start = LiteralPtr MSG_UNTERMINATED_STRING,
            tok_length = int (strlen MSG_UNTERMINATED_STRING), tok_line = line (scanner g)\<rparr>,
          g\<lparr>scanner := \<lparr>start = length pre, current = length pre + length body + 1,
                          line = line (scanner g)\<rparr>\<rparr>)"
  using assms
  by (simp add: scanToken_at_lead NUL_def scanToken_lead_dquote string_unterminated store_def
      errorToken_def c_int_messages)


lemma scanToken_character_closed:
  assumes "\<forall>c\<in>set body. c \<noteq> NUL \<and> c \<noteq> CHR 0x27 \<and> c \<noteq> CHR 0x0A"
    and "current (scanner g) = length pre"
    and "length body < 2147483648"
  shows "scanToken (pre @ CHR 0x27 # body @ CHR 0x27 # rest) g =
     (if length body \<le> 1
      then Inr (\<lparr>tok_type = TOKEN_CHARACTER, tok_start = SourcePtr (length pre),
                 tok_length = int (length body) + 2, tok_line = line (scanner g)\<rparr>,
                g\<lparr>scanner := \<lparr>start = length pre, current = length pre + length body + 2,
                                line = line (scanner g)\<rparr>\<rparr>)
      else if length FMT_NOT_SINGLE_CHARACTER + length body < MESSAGE_SIZE
      then Inr (\<lparr>tok_type = TOKEN_ERROR, tok_start = MessagePtr,
                 tok_length = int (length FMT_NOT_SINGLE_CHARACTER + length body),
                 tok_line = line (scanner g)\<rparr>,
                g\<lparr>scanner := \<lparr>start = length pre, current = length pre + length body + 2,
                                line = line (scanner g)\<rparr>,
                  message := FMT_NOT_SINGLE_CHARACTER @ body\<rparr>)
      else Inl (MessageOverrun (FMT_NOT_SINGLE_CHARACTER @ body)))"
proof -
  let ?g = "g\<lparr>scanner := \<lparr>start = length pre, current = Suc (length pre),
                            line = line (scanner g)\<rparr>\<rparr>"
  have "scanToken (pre @ CHR 0x27 # body @ CHR 0x27 # rest) g =
        character (pre @ CHR 0x27 # body @ CHR 0x27 # rest) ?g"
    using assms by (simp add: scanToken_at_lead NUL_def scanToken_lead_quote)
  also have "\<dots> =
     (if length body \<le> 1
      then Inr (\<lparr>tok_type = TOKEN_CHARACTER, tok_start = SourcePtr (length pre),
                 tok_length = int (length body) + 2, tok_line = line (scanner g)\<rparr>,
                ?g\<lparr>scanner := \<lparr>start = length pre, current = length pre + length body + 2,
                                 line = line (scanner g)\<rparr>\<rparr>)
      else if length FMT_NOT_SINGLE_CHARACTER + length body < MESSAGE_SIZE
      then Inr (\<lparr>tok_type = TOKEN_ERROR, tok_start = MessagePtr,
                 tok_length = int (length FMT_NOT_SINGLE_CHARACTER + length body),
                 tok_line = line (scanner g)\<rparr>,
                ?g\<lparr>scanner := \<lparr>start = length pre, current = length pre + length body + 2,
                                 line = line (scanner g)\<rparr>,
                   message := FMT_NOT_SINGLE_CHARACTER @ body\<rparr>)
      else Inl (MessageOverrun (FMT_NOT_SINGLE_CHARACTER @ body)))"
    by (rule character_closed [OF assms(1) _ assms(3)]) simp
  finally show ?thesis by simp
qed



section \<open>The line counter\<close>

lemma identifier_tok_line:
  "line (snd (identifier_tok src s)) = line s" "tok_line (fst (identifier_tok src s)) = line s"
  by (simp_all add: identifier_tok_def Let_def makeToken_def)

lemma number_line:
  "line (snd (number src s)) = line s" "tok_line (fst (number src s)) = line s"
  by (simp_all add: number_def Let_def makeToken_def advance_def)

lemma string_line:
  "line (snd (string src s)) = line s" "tok_line (fst (string src s)) = line s"
proof -
  obtain b s1 where r: "string_loop src s = (b, s1)"
    by fastforce
  with string_loop_fields(1) [of src s] have "line s1 = line s"
    by simp
  with r show "line (snd (string src s)) = line s" "tok_line (fst (string src s)) = line s"
    by (auto simp: string_def Let_def makeToken_def errorToken_def advance_def
             split: bool.splits)
qed

lemma character_line:
  assumes "character src g = Inr (tok, g')"
  shows "line (scanner g') = line (scanner g) \<and> tok_line tok = line (scanner g)"
proof -
  obtain b s1 where r: "character_loop src (scanner g) = (b, s1)"
    by fastforce
  with character_loop_fields(1) [of src "scanner g"] have "line s1 = line (scanner g)"
    by simp
  with r assms show ?thesis
    by (auto simp: character_def Let_def makeToken_def errorToken_def advance_def
             split: bool.splits if_splits sum.splits)
qed

lemma scanToken_lead_ops_line:
  "\<forall>c \<in> set ''(){},.;~+-*/%&|^=!<>''.
     \<exists>tok g'. scanToken_lead src c g s2 = Inr (tok, g') \<and>
              line (scanner g') = line s2 \<and> tok_line tok = line s2"
  by (simp add: scanToken_lead_def store_def isAlpha_def isDigit_def case_match advance_def
      makeToken_def)

lemma scanToken_lead_line:
  assumes "scanToken_lead src c g s2 = Inr (tok, g')"
  shows "line (scanner g') = line s2 \<and> tok_line tok = line s2"
proof (cases "c \<in> set ''(){},.;~+-*/%&|^=!<>''")
  case True
  from bspec [OF scanToken_lead_ops_line True, of src g s2] assms
  show ?thesis by auto
next
  case other: False
  show ?thesis
  proof (cases "isAlpha c \<or> isDigit c")
    case True
    have "scanToken_lead src c g s2 =
          store g (if isAlpha c then identifier_tok src s2 else number src s2)"
      using True by (cases "isAlpha c") (simp_all add: scanToken_lead_def)
    with assms show ?thesis
      by (auto simp: store_def identifier_tok_line number_line split: if_splits)
  next
    case False
    with scanToken_lead_other [of c src g s2] other assms
      character_line [of src "g\<lparr>scanner := s2\<rparr>" tok g']
    show ?thesis
      by (auto simp: store_def errorTokenWithChar_returns errorToken_def string_line
               split: if_splits)
  qed
qed

lemma scanToken_line:
  assumes "scanToken src g = Inr (tok, g')"
  shows "line (scanner g') = line (scanner g) \<and> tok_line tok = line (scanner g)"
proof -
  define s0 where "s0 = skipWhitespace src (scanner g)"
  define s1 where "s1 = s0\<lparr>start := current s0\<rparr>"
  have l: "line s1 = line (scanner g)"
    by (simp add: s1_def s0_def)
  show ?thesis
  proof (cases "isAtEnd src s1")
    case True
    with assms l show ?thesis
      by (auto simp: scanToken_def Let_def s0_def [symmetric] s1_def [symmetric] store_def
               makeToken_def)
  next
    case False
    with assms have "scanToken_lead src (peek src s1) g (advance s1) = Inr (tok, g')"
      by (simp add: scanToken_def Let_def s0_def [symmetric] s1_def [symmetric])
    from scanToken_lead_line [OF this] l show ?thesis
      by (simp add: advance_def)
  qed
qed

lemma scan_n_line: "scan_n n src g = Inr g' \<Longrightarrow> line (scanner g') = line (scanner g)"
proof (induction n arbitrary: g)
  case 0
  then show ?case by simp
next
  case (Suc n)
  from Suc.prems obtain tok g1 where st: "scanToken src g = Inr (tok, g1)"
    and r: "scan_n n src g1 = Inr g'"
    by (auto split: sum.splits)
  from Suc.IH [OF r] scanToken_line [OF st] show ?case by simp
qed

section \<open>Numbers\<close>

lemma digits_run:
  assumes "\<forall>c\<in>set w. isDigit c" and "\<not> isDigit (char_at rest 0)"
    and "current s = length pre"
  shows "digits (pre @ w @ rest) s = s\<lparr>current := length pre + length w\<rparr>"
proof -
  have "char_at (pre @ w @ rest) (length pre + length w) = char_at rest 0"
    using char_at_append_right [of "pre @ w" rest 0] by simp
  with assms(2) have "digits (pre @ w @ rest) (s\<lparr>current := length pre + length w\<rparr>) =
                      s\<lparr>current := length pre + length w\<rparr>"
    by (intro digits_stop) (simp add: peek_def)
  with digits_skip [OF assms(1,3), of rest] show ?thesis by simp
qed

lemma number_integer:
  assumes "\<forall>c\<in>set ds. isDigit c" and "\<not> isDigit (char_at rest 0)"
    and "\<not> (char_at rest 0 = CHR ''.'' \<and> isDigit (char_at rest 1))"
    and "current s = Suc (length pre)"
  shows "number (pre @ d # ds @ rest) s =
         (makeToken TOKEN_NUMBER (s\<lparr>current := length pre + 1 + length ds\<rparr>),
          s\<lparr>current := length pre + 1 + length ds\<rparr>)"
proof -
  let ?src = "pre @ d # ds @ rest"
  have run: "digits ?src s = s\<lparr>current := Suc (length pre) + length ds\<rparr>"
    using digits_run [OF assms(1,2), of s "pre @ [d]"] assms(4) by simp
  have nxt: "char_at ?src (Suc (Suc (length pre + length ds))) = char_at rest 1"
    using char_at_append_right [of "pre @ d # ds" rest 1] by simp
  show ?thesis
    using assms(3) nxt
    by (auto simp: number_def Let_def run peek_def peekNext_def isAtEnd_def)
qed

lemma number_fraction:
  assumes "\<forall>c\<in>set ds. isDigit c" and "fs \<noteq> []" and "\<forall>c\<in>set fs. isDigit c"
    and "\<not> isDigit (char_at rest 0)"
    and "current s = Suc (length pre)"
  shows "number (pre @ d # ds @ CHR ''.'' # fs @ rest) s =
         (makeToken TOKEN_NUMBER (s\<lparr>current := length pre + length ds + length fs + 2\<rparr>),
          s\<lparr>current := length pre + length ds + length fs + 2\<rparr>)"
proof -
  let ?src = "pre @ d # ds @ CHR ''.'' # fs @ rest"
  let ?s1 = "s\<lparr>current := Suc (length pre) + length ds\<rparr>"
  have nd: "\<not> isDigit (CHR ''.'')" by (simp add: isDigit_def)
  have run: "digits ?src s = ?s1"
    using digits_run [OF assms(1), of "CHR ''.'' # fs @ rest" s "pre @ [d]"] assms(5) nd
    by simp
  obtain f fs' where fs: "fs = f # fs'" using assms(2) by (cases fs) auto
  with assms(3) have f: "isDigit f" by simp
  have dot: "char_at ?src (Suc (length pre + length ds)) = CHR ''.''"
    by simp
  have nxt: "char_at ?src (Suc (Suc (length pre + length ds))) = f"
    using char_at_mid [of "pre @ d # ds @ [CHR ''.'']" f "fs' @ rest"] fs by simp
  have frac: "digits ?src (advance ?s1) = (advance ?s1)\<lparr>current := length (pre @ d # ds @ [CHR ''.'']) + length fs\<rparr>"
    using digits_run [OF assms(3,4), of "advance ?s1" "pre @ d # ds @ [CHR ''.'']"]
    by (simp add: advance_def)
  show ?thesis
    using dot nxt f frac
    by (simp add: number_def Let_def run peek_def peekNext_def isAtEnd_def NUL_def advance_def)
qed

lemma isDigit_lead:
  "isDigit d \<Longrightarrow> d \<notin> {CHR '' '', CHR 0x0D, CHR 0x09, CHR 0x0A, CHR ''/'', NUL}"
  by (auto simp: isDigit_def NUL_def)

lemma isDigit_not_isAlpha: "isDigit d \<Longrightarrow> \<not> isAlpha d"
  by (auto simp: isDigit_def isAlpha_def less_eq_char_def)

lemma scanToken_lead_digit:
  "isDigit d \<Longrightarrow> scanToken_lead src d g s2 = store g (number src s2)"
  by (simp add: scanToken_lead_def isDigit_not_isAlpha)

lemma scanToken_number_integer:
  assumes "isDigit d" and "\<forall>c\<in>set ds. isDigit c" and "\<not> isDigit (char_at rest 0)"
    and "\<not> (char_at rest 0 = CHR ''.'' \<and> isDigit (char_at rest 1))"
    and "current (scanner g) = length pre"
    and "length ds + 1 < 2147483648"
  shows "scanToken (pre @ d # ds @ rest) g =
     Inr (\<lparr>tok_type = TOKEN_NUMBER, tok_start = SourcePtr (length pre),
            tok_length = int (length ds) + 1, tok_line = line (scanner g)\<rparr>,
          g\<lparr>scanner := \<lparr>start = length pre, current = length pre + length ds + 1,
                          line = line (scanner g)\<rparr>\<rparr>)"
proof -
  from assms(6) have "c_int (1 + int (length ds)) = 1 + int (length ds)"
    by (intro c_int_id) simp_all
  with assms(5) isDigit_lead [OF assms(1)] show ?thesis
    by (simp add: scanToken_at_lead scanToken_lead_digit [OF assms(1)]
        number_integer [OF assms(2,3,4)] store_def makeToken_def)
qed

lemma scanToken_number_fraction:
  assumes "isDigit d" and "\<forall>c\<in>set ds. isDigit c" and "fs \<noteq> []" and "\<forall>c\<in>set fs. isDigit c"
    and "\<not> isDigit (char_at rest 0)"
    and "current (scanner g) = length pre"
    and "length ds + length fs + 2 < 2147483648"
  shows "scanToken (pre @ d # ds @ CHR ''.'' # fs @ rest) g =
     Inr (\<lparr>tok_type = TOKEN_NUMBER, tok_start = SourcePtr (length pre),
            tok_length = int (length ds) + int (length fs) + 2, tok_line = line (scanner g)\<rparr>,
          g\<lparr>scanner := \<lparr>start = length pre, current = length pre + length ds + length fs + 2,
                          line = line (scanner g)\<rparr>\<rparr>)"
proof -
  from assms(7) have "c_int (2 + (int (length ds) + int (length fs))) =
                      2 + (int (length ds) + int (length fs))"
    by (intro c_int_id) simp_all
  with assms(6) isDigit_lead [OF assms(1)] show ?thesis
    by (simp add: scanToken_at_lead scanToken_lead_digit [OF assms(1)]
        number_fraction [OF assms(2,3,4,5)] store_def makeToken_def)
qed

lemma scanToken_dot:
  assumes "current (scanner g) = length pre"
  shows "scanToken (pre @ CHR ''.'' # rest) g =
     Inr (\<lparr>tok_type = TOKEN_DOT, tok_start = SourcePtr (length pre), tok_length = 1,
            tok_line = line (scanner g)\<rparr>,
          g\<lparr>scanner := \<lparr>start = length pre, current = length pre + 1,
                          line = line (scanner g)\<rparr>\<rparr>)"
  using assms
  by (simp add: scanToken_at_lead NUL_def scanToken_lead_def isAlpha_def isDigit_def store_def
      makeToken_def c_int_def)

section \<open>Operators\<close>

lemma scanToken_lead_operator:
  "\<forall>c \<in> set ''+-*/%&|^=!<>''.
     \<exists>t n. longest_operator c (peek src s2) = Some (t, n) \<and> (n = 1 \<or> n = 2) \<and>
           (n = 2 \<longleftrightarrow> [c, peek src s2] \<in> fst ` set double_operators) \<and>
           scanToken_lead src c g s2 =
             Inr (makeToken t (s2\<lparr>current := current s2 + n - 1\<rparr>),
                  g\<lparr>scanner := s2\<lparr>current := current s2 + n - 1\<rparr>\<rparr>)"
  by (simp add: scanToken_lead_def store_def isAlpha_def isDigit_def case_match advance_def
      longest_operator_def double_operators_def single_operators_def NUL_def
      current_update_same)


lemma operator_lead:
  "c \<in> set ''+-*%&|^=!<>'' \<Longrightarrow>
   c \<notin> {CHR '' '', CHR 0x0D, CHR 0x09, CHR 0x0A, CHR ''/'', NUL}"
  by (auto simp: NUL_def)

section \<open>Keywords\<close>

lemma checkKeyword_exact:
  assumes "start s = length pre" and "current s = length pre + length w"
  shows "checkKeyword (pre @ w @ rest) s st len r t =
         (if length w = st + len \<and> drop st w = take len r then t else TOKEN_IDENTIFIER)"
proof (cases "length w = st + len")
  case True
  then have "bytes_at (pre @ w @ rest) (length pre + st) len = drop st w"
    by (simp add: bytes_at_append)
  with True assms show ?thesis
    by (simp add: checkKeyword_def)
next
  case False
  with assms show ?thesis
    by (auto simp: checkKeyword_def)
qed

text \<open>The \<^verbatim>\<open>int len\<close> of \<^verbatim>\<open>identifierType\<close> is the length of a lexeme below \<open>2^31\<close> bytes.\<close>

lemma identifierType_len:
  assumes "start s = length pre" and "current s = length pre + length w"
    and "length w < 2147483648"
  shows "c_int (int (current s) - int (start s)) = int (length w)"
  using assms by (simp add: c_int_id)

lemma char_at_append_Suc [simp]:
  "char_at (xs @ ys) (Suc (length xs)) = char_at ys 1"
  "char_at (xs @ ys) (Suc (Suc (length xs))) = char_at ys 2"
  "char_at (xs @ ys) (Suc (Suc (Suc (length xs)))) = char_at ys 3"
  by (auto simp: char_at_def nth_append eval_nat_numeral)

lemma char_at_Cons_numeral [simp]:
  "char_at (c # xs) (numeral n) = char_at xs (pred_numeral n)"
  by (simp add: char_at_def)

lemma identifierType_only_keywords_4:
  assumes "start s = length pre" and "current s = length pre + length (a # b # c # d # w)"
    and "identifierType (pre @ (a # b # c # d # w) @ rest) s = t" and "t \<noteq> TOKEN_IDENTIFIER"
    and "length (a # b # c # d # w) < 2147483648"
  shows "(a # b # c # d # w, t) \<in> set reserved_words"
  using assms(3,4) assms(1,2)
  unfolding identifierType_def Let_def checkKeyword_exact [OF assms(1,2)]
    identifierType_len [OF assms(1,2,5)]
  by (auto split: if_splits simp: reserved_words_def)

lemma identifierType_only_keywords_3:
  assumes "start s = length pre" and "current s = length pre + length [a, b, c]"
    and "identifierType (pre @ [a, b, c] @ rest) s = t" and "t \<noteq> TOKEN_IDENTIFIER"
    and "length [a, b, c] < 2147483648"
  shows "([a, b, c], t) \<in> set reserved_words"
  using assms(3,4) assms(1,2)
  unfolding identifierType_def Let_def checkKeyword_exact [OF assms(1,2)]
    identifierType_len [OF assms(1,2,5)]
  by (auto split: if_splits simp: reserved_words_def)

lemma identifierType_only_keywords_2:
  assumes "start s = length pre" and "current s = length pre + length [a, b]"
    and "identifierType (pre @ [a, b] @ rest) s = t" and "t \<noteq> TOKEN_IDENTIFIER"
    and "length [a, b] < 2147483648"
  shows "([a, b], t) \<in> set reserved_words"
  using assms(3,4) assms(1,2)
  unfolding identifierType_def Let_def checkKeyword_exact [OF assms(1,2)]
    identifierType_len [OF assms(1,2,5)]
  by (auto split: if_splits simp: reserved_words_def)

lemma identifierType_only_keywords_1:
  assumes "start s = length pre" and "current s = length pre + length [a]"
    and "identifierType (pre @ [a] @ rest) s = t" and "t \<noteq> TOKEN_IDENTIFIER"
    and "length [a] < 2147483648"
  shows "([a], t) \<in> set reserved_words"
  using assms(3,4) assms(1,2)
  unfolding identifierType_def Let_def checkKeyword_exact [OF assms(1,2)]
    identifierType_len [OF assms(1,2,5)]
  by (auto split: if_splits simp: reserved_words_def)

lemma identifierType_only_keywords:
  assumes "w \<noteq> []" and "start s = length pre" and "current s = length pre + length w"
    and "identifierType (pre @ w @ rest) s \<noteq> TOKEN_IDENTIFIER"
    and "length w < 2147483648"
  shows "(w, identifierType (pre @ w @ rest) s) \<in> set reserved_words"
proof -
  consider a where "w = [a]" | a b where "w = [a, b]" | a b c where "w = [a, b, c]"
    | a b c d w' where "w = a # b # c # d # w'"
    using assms(1)
    by (cases w; cases "tl w"; cases "tl (tl w)"; cases "tl (tl (tl w))") auto
  then show ?thesis
  proof cases
    case 1
    with assms(2,3,4,5) show ?thesis
      using identifierType_only_keywords_1 [of s pre a rest] by simp
  next
    case 2
    with assms(2,3,4,5) show ?thesis
      using identifierType_only_keywords_2 [of s pre a b rest] by simp
  next
    case 3
    with assms(2,3,4,5) show ?thesis
      using identifierType_only_keywords_3 [of s pre a b c rest] by simp
  next
    case 4
    with assms(2,3,4,5) show ?thesis
      using identifierType_only_keywords_4 [of s pre a b c d w' rest] by simp
  qed
qed

lemma identifierType_keywords:
  assumes "start s = length pre" and "current s = length pre + length w"
    and "w \<in> fst ` set reserved_words"
    and "length w < 2147483648"
  shows "identifierType (pre @ w @ rest) s = keyword_tag w"
  using assms(3)
  unfolding identifierType_def Let_def checkKeyword_exact [OF assms(1,2)] reserved_words_def
    identifierType_len [OF assms(1,2,4)]
  apply (simp only: list.set image_insert image_empty fst_conv insert_iff empty_iff)
  apply (elim disjE; simp add: keyword_tag_def reserved_words_def assms(1,2))
  done

lemma identifierType_exact:
  assumes "w \<noteq> []" and "start s = length pre" and "current s = length pre + length w"
    and "length w < 2147483648"
  shows "identifierType (pre @ w @ rest) s = keyword_tag w"
proof (cases "w \<in> fst ` set reserved_words")
  case True
  from assms(2,3) True assms(4) show ?thesis by (rule identifierType_keywords)
next
  case False
  then have "map_of reserved_words w = None"
    by (simp add: map_of_eq_None_iff)
  then have tag: "keyword_tag w = TOKEN_IDENTIFIER"
    by (simp add: keyword_tag_def)
  have "identifierType (pre @ w @ rest) s = TOKEN_IDENTIFIER"
  proof (rule ccontr)
    assume "identifierType (pre @ w @ rest) s \<noteq> TOKEN_IDENTIFIER"
    from identifierType_only_keywords [OF assms(1,2,3) this assms(4)]
    have "w \<in> fst ` set reserved_words" by force
    with False show False by simp
  qed
  with tag show ?thesis by simp
qed

lemma isAlpha_lead:
  "isAlpha a \<Longrightarrow> a \<notin> {CHR '' '', CHR 0x0D, CHR 0x09, CHR 0x0A, CHR ''/'', NUL}"
  by (auto simp: isAlpha_def NUL_def)

lemma identifier_loop_run:
  assumes "\<forall>c\<in>set w. isAlpha c \<or> isDigit c"
    and "\<not> (isAlpha (char_at rest 0) \<or> isDigit (char_at rest 0))"
    and "current s = length pre"
  shows "identifier_loop (pre @ w @ rest) s = s\<lparr>current := length pre + length w\<rparr>"
proof -
  have "char_at (pre @ w @ rest) (length pre + length w) = char_at rest 0"
    using char_at_append_right [of "pre @ w" rest 0] by simp
  with assms(2) have "identifier_loop (pre @ w @ rest) (s\<lparr>current := length pre + length w\<rparr>) =
                      s\<lparr>current := length pre + length w\<rparr>"
    by (intro identifier_loop_stop) (simp add: peek_def)
  with identifier_loop_skip [OF assms(1,3), of rest] show ?thesis by simp
qed

lemma no_keyword_is_identifier: "TOKEN_IDENTIFIER \<notin> snd ` set reserved_words"
  by (simp add: reserved_words_def)

lemma keyword_tag_identifier:
  "keyword_tag w = TOKEN_IDENTIFIER \<longleftrightarrow> w \<notin> fst ` set reserved_words"
proof (cases "map_of reserved_words w")
  case None
  then have "w \<notin> fst ` set reserved_words"
    by (simp add: map_of_eq_None_iff)
  moreover from None have "keyword_tag w = TOKEN_IDENTIFIER"
    unfolding keyword_tag_def by simp
  ultimately show ?thesis by simp
next
  case (Some k)
  then have m: "(w, k) \<in> set reserved_words"
    by (rule map_of_SomeD)
  then have "k \<in> snd ` set reserved_words" by force
  with no_keyword_is_identifier have "k \<noteq> TOKEN_IDENTIFIER" by metis
  moreover from m have "w \<in> fst ` set reserved_words" by force
  ultimately show ?thesis using Some by (simp add: keyword_tag_def)
qed

lemma reserved_words_distinct: "distinct (map fst reserved_words)"
  by (simp add: reserved_words_def)

lemma keyword_tag_member: "(w, k) \<in> set reserved_words \<Longrightarrow> keyword_tag w = k"
  using reserved_words_distinct by (simp add: keyword_tag_def)

lemma scanToken_identifier:
  assumes "isAlpha a" and "\<forall>c\<in>set w. isAlpha c \<or> isDigit c"
    and "\<not> (isAlpha (char_at rest 0) \<or> isDigit (char_at rest 0))"
    and "current (scanner g) = length pre"
    and "length w + 1 < 2147483648"
  shows "scanToken (pre @ a # w @ rest) g =
     Inr (\<lparr>tok_type = keyword_tag (a # w), tok_start = SourcePtr (length pre),
            tok_length = int (length w) + 1, tok_line = line (scanner g)\<rparr>,
          g\<lparr>scanner := \<lparr>start = length pre, current = length pre + length w + 1,
                          line = line (scanner g)\<rparr>\<rparr>)"
proof -
  let ?src = "pre @ a # w @ rest"
  let ?s2 = "\<lparr>start = length pre, current = Suc (length pre), line = line (scanner g)\<rparr>"
  let ?s3 = "\<lparr>start = length pre, current = length pre + length (a # w),
              line = line (scanner g)\<rparr>"
  have lead: "scanToken ?src g = store g (identifier_tok ?src ?s2)"
    using assms(1,4) isAlpha_lead [OF assms(1)]
    by (simp add: scanToken_at_lead scanToken_lead_def)
  have run: "identifier_loop ?src ?s2 = ?s3"
    using identifier_loop_run [OF assms(2,3), of ?s2 "pre @ [a]"] by simp
  have "identifierType (pre @ (a # w) @ rest) ?s3 = keyword_tag (a # w)"
    using assms(5) by (intro identifierType_exact) simp_all
  then have ty: "identifierType ?src ?s3 = keyword_tag (a # w)"
    by simp
  from assms(5) have "c_int (1 + int (length w)) = 1 + int (length w)"
    by (intro c_int_id) simp_all
  then show ?thesis
    using ty
    by (simp add: lead identifier_tok_def Let_def run store_def makeToken_def)
qed

section \<open>Claims\<close>

text \<open>
  C1 (line tracking). The specification states that the token that follows the \<open>k\<close>-th newline has line
  \<open>k + 1\<close>. \<^verbatim>\<open>skipWhitespace\<close> consumes a newline with \<^verbatim>\<open>advance()\<close> only, and no
  statement of \<^verbatim>\<open>scanner.c\<close> assigns \<^verbatim>\<open>scanner.line\<close> after \<^verbatim>\<open>initScanner\<close>. On the source
  of a newline followed by \<open>x\<close>, the identifier that follows the first newline is reported
  on line 1, not 2; and whatever the source and however many tokens were read before, the
  line counter is 1 and the next token is reported on line 1.
\<close>

theorem newline_does_not_advance_line:
  "scanToken [CHR 0x0A, CHR ''x''] (initScanner g) =
     Inr (\<lparr>tok_type = TOKEN_IDENTIFIER, tok_start = SourcePtr 1, tok_length = 1, tok_line = 1\<rparr>,
          g\<lparr>scanner := \<lparr>start = 1, current = 2, line = 1\<rparr>\<rparr>) \<and>
   (\<forall>g1 tok g2. scan_n n src (initScanner g) = Inr g1 \<and> scanToken src g1 = Inr (tok, g2) \<longrightarrow>
      line (scanner g1) = 1 \<and> tok_line tok = 1 \<and> line (scanner g2) = 1)"
proof (intro conjI allI impI)
  show "scanToken [CHR 0x0A, CHR ''x''] (initScanner g) =
     Inr (\<lparr>tok_type = TOKEN_IDENTIFIER, tok_start = SourcePtr 1, tok_length = 1, tok_line = 1\<rparr>,
          g\<lparr>scanner := \<lparr>start = 1, current = 2, line = 1\<rparr>\<rparr>)"
    by (simp add: scanToken_def initScanner_def Let_def skipWhitespace.simps peek_def
        advance_def isAtEnd_def NUL_def store_def scanToken_lead_def isAlpha_def isDigit_def
        identifier_tok_def identifier_loop.simps identifierType_def makeToken_def c_int_def)
next
  fix g1 tok g2
  assume h: "scan_n n src (initScanner g) = Inr g1 \<and> scanToken src g1 = Inr (tok, g2)"
  from h have a: "scan_n n src (initScanner g) = Inr g1"
    and b: "scanToken src g1 = Inr (tok, g2)"
    by simp_all
  from scan_n_line [OF a] have l: "line (scanner g1) = 1"
    by (simp add: initScanner_def)
  with scanToken_line [OF b] show "line (scanner g1) = 1" "tok_line tok = 1" "line (scanner g2) = 1"
    by simp_all
qed

text \<open>
  On the source of two lines \<open>x\<close> and \<open>y\<close>, with a newline in front of each: after the call
  that returns \<open>x\<close>, the call that returns \<open>y\<close>, the token behind the second newline,
  reports line 1.
\<close>

theorem newline_does_not_advance_line_witness:
  "scan_n 1 [CHR 0x0A, CHR ''x'', CHR 0x0A, CHR ''y''] (initScanner zero_globals) =
     Inr \<lparr>scanner = \<lparr>start = 1, current = 2, line = 1\<rparr>, message = []\<rparr> \<and>
   scanToken [CHR 0x0A, CHR ''x'', CHR 0x0A, CHR ''y'']
       \<lparr>scanner = \<lparr>start = 1, current = 2, line = 1\<rparr>, message = []\<rparr> =
     Inr (\<lparr>tok_type = TOKEN_IDENTIFIER, tok_start = SourcePtr 3, tok_length = 1, tok_line = 1\<rparr>,
          \<lparr>scanner = \<lparr>start = 3, current = 4, line = 1\<rparr>, message = []\<rparr>)"
proof -
  let ?src = "[CHR 0x0A, CHR ''x'', CHR 0x0A, CHR ''y'']"
  let ?g1 = "\<lparr>scanner = \<lparr>start = 1, current = 2, line = 1\<rparr>, message = []\<rparr>"
  note defs = scanToken_def initScanner_def zero_globals_def Let_def skipWhitespace.simps
      peek_def peekNext_def char_at_def advance_def isAtEnd_def NUL_def store_def
      scanToken_lead_def isAlpha_def isDigit_def identifier_tok_def identifier_loop.simps
      identifierType_def makeToken_def c_int_def
  have first: "scan_n 1 ?src (initScanner zero_globals) = Inr ?g1"
    by (simp add: defs)
  have "\<exists>tok0 g2. scanToken ?src ?g1 = Inr (tok0, g2) \<and>
          tok_type tok0 = TOKEN_IDENTIFIER \<and> tok_start tok0 = SourcePtr 3 \<and>
          tok_length tok0 = 1 \<and> g2 = \<lparr>scanner = \<lparr>start = 3, current = 4, line = 1\<rparr>, message = []\<rparr>"
    by (simp add: defs)
  then obtain tok0 where second: "scanToken ?src ?g1 =
          Inr (tok0, \<lparr>scanner = \<lparr>start = 3, current = 4, line = 1\<rparr>, message = []\<rparr>)"
    and f: "tok_type tok0 = TOKEN_IDENTIFIER" "tok_start tok0 = SourcePtr 3" "tok_length tok0 = 1"
    by blast
  from newline_does_not_advance_line [of zero_globals 1 ?src, THEN conjunct2, rule_format,
      of ?g1 tok0 "\<lparr>scanner = \<lparr>start = 3, current = 4, line = 1\<rparr>, message = []\<rparr>"]
    first second
  have "tok_line tok0 = 1" by simp
  with f have "tok0 = \<lparr>tok_type = TOKEN_IDENTIFIER, tok_start = SourcePtr 3, tok_length = 1,
                        tok_line = 1\<rparr>"
    by (cases tok0) simp
  with first second show ?thesis by simp
qed

text \<open>
  C2 (bracket punctuation). The specification states that a source whose next character is \<open>[\<close> or \<open>]\<close>
  yields a token tagged \<open>TOKEN_LEFT_BRACKET\<close> or \<open>TOKEN_RIGHT_BRACKET\<close>. The enumeration
  has both tags, but the \<^verbatim>\<open>switch\<close> of \<^verbatim>\<open>scanToken\<close> has no case for either character:
  both reach \<^verbatim>\<open>default\<close> and come back as \<open>TOKEN_ERROR\<close> tokens whose text is the
  unexpected-character message (15 bytes) followed by the bracket.
\<close>

theorem brackets_reach_default:
  "scanToken ''['' (initScanner g) =
     Inr (\<lparr>tok_type = TOKEN_ERROR, tok_start = MessagePtr, tok_length = 16, tok_line = 1\<rparr>,
          \<lparr>scanner = \<lparr>start = 0, current = 1, line = 1\<rparr>,
           message = FMT_UNEXPECTED_CHARACTER @ ''[''\<rparr>) \<and>
   scanToken '']'' (initScanner g) =
     Inr (\<lparr>tok_type = TOKEN_ERROR, tok_start = MessagePtr, tok_length = 16, tok_line = 1\<rparr>,
          \<lparr>scanner = \<lparr>start = 0, current = 1, line = 1\<rparr>,
           message = FMT_UNEXPECTED_CHARACTER @ '']''\<rparr>)"
  by (simp add: scanToken_def initScanner_def Let_def skipWhitespace.simps peek_def
      advance_def isAtEnd_def NUL_def store_def scanToken_lead_def isAlpha_def isDigit_def
      errorTokenWithChar_returns errorToken_def strlen_def FMT_UNEXPECTED_CHARACTER_def
      c_int_def)

text \<open>
  C3 (keywords by equality of the whole lexeme). The cursor stands on a letter or
  underscore \<open>a\<close>, followed by the letters, digits and underscores \<open>w\<close> and then by
  \<open>rest\<close>, which starts with none of these: \<open>a # w\<close> is the maximal identifier lexeme.
  The source is shorter than \<open>2^31\<close> bytes, so that the \<^verbatim>\<open>int\<close> lengths of
  \<^verbatim>\<open>identifierType\<close> and \<^verbatim>\<open>makeToken\<close> are the length of the lexeme. Then the call returns
  a token that spans exactly the lexeme, with the cursor behind it, and its tag is the one
  that comparing the whole
  lexeme with the 27 reserved words of the specification gives: the tag of the reserved
  word when the lexeme is equal to one, character for character, and \<open>TOKEN_IDENTIFIER\<close>
  exactly when it is equal to none (so for every proper prefix, extension or case variant
  of a reserved word that is not itself reserved).
\<close>

theorem keyword_classification:
  assumes "isAlpha a" and "\<forall>c\<in>set w. isAlpha c \<or> isDigit c"
    and "\<not> (isAlpha (char_at rest 0) \<or> isDigit (char_at rest 0))"
    and "current (scanner g) = length pre"
    and "src = pre @ [a] @ w @ rest"
    and "length src < 2147483648"
  shows "\<exists>tok g'.
           scanToken src g = Inr (tok, g') \<and>
           tok = \<lparr>tok_type = keyword_tag (a # w), tok_start = SourcePtr (length pre),
                  tok_length = int (length w) + 1, tok_line = line (scanner g)\<rparr> \<and>
           g' = g\<lparr>scanner := \<lparr>start = length pre, current = length pre + length w + 1,
                                line = line (scanner g)\<rparr>\<rparr> \<and>
           token_text src g' tok = a # w \<and>
           (\<forall>k. (a # w, k) \<in> set reserved_words \<longrightarrow> tok_type tok = k) \<and>
           (a # w \<notin> fst ` set reserved_words \<longleftrightarrow> tok_type tok = TOKEN_IDENTIFIER) \<and>
           length reserved_words = 27 \<and> distinct (map fst reserved_words)"
proof -
  have src_eq: "src = pre @ a # w @ rest"
    using assms(5) by simp
  have bound: "length w + 1 < 2147483648"
    using assms(6) unfolding src_eq by simp
  note tok = scanToken_identifier [OF assms(1-4) bound]
  have nn: "NUL \<notin> set (a # w)"
    using assms(1,2) class_not_NUL by auto
  have span: "fmt_precision_s src (int (length w) + 1) (length pre) = a # w"
    using fmt_precision_s_whole [OF nn, of pre rest] src_eq by (simp add: add.commute)
  show ?thesis
    unfolding src_eq tok
    using span [unfolded src_eq]
    by (auto simp: token_text_def keyword_tag_member keyword_tag_identifier
        reserved_words_distinct)
       (simp_all add: reserved_words_def)
qed

text \<open>
  The examples of the specification: \<open>breaking\<close>, \<open>Return\<close> and \<open>returns\<close> are
  identifiers; \<open>return\<close> is \<open>TOKEN_RETURN\<close>, and \<open>break\<close> in front of a semicolon is
  \<open>TOKEN_BREAK\<close>.
\<close>

theorem keyword_classification_witness:
  "isAlpha (CHR ''b'') \<and> isAlpha (CHR ''R'') \<and> isAlpha (CHR ''r'') \<and>
   scanToken ''breaking'' (initScanner zero_globals) =
     Inr (\<lparr>tok_type = TOKEN_IDENTIFIER, tok_start = SourcePtr 0, tok_length = 8, tok_line = 1\<rparr>,
          \<lparr>scanner = \<lparr>start = 0, current = 8, line = 1\<rparr>, message = []\<rparr>) \<and>
   scanToken ''Return'' (initScanner zero_globals) =
     Inr (\<lparr>tok_type = TOKEN_IDENTIFIER, tok_start = SourcePtr 0, tok_length = 6, tok_line = 1\<rparr>,
          \<lparr>scanner = \<lparr>start = 0, current = 6, line = 1\<rparr>, message = []\<rparr>) \<and>
   scanToken ''returns'' (initScanner zero_globals) =
     Inr (\<lparr>tok_type = TOKEN_IDENTIFIER, tok_start = SourcePtr 0, tok_length = 7, tok_line = 1\<rparr>,
          \<lparr>scanner = \<lparr>start = 0, current = 7, line = 1\<rparr>, message = []\<rparr>) \<and>
   scanToken ''return'' (initScanner zero_globals) =
     Inr (\<lparr>tok_type = TOKEN_RETURN, tok_start = SourcePtr 0, tok_length = 6, tok_line = 1\<rparr>,
          \<lparr>scanner = \<lparr>start = 0, current = 6, line = 1\<rparr>, message = []\<rparr>) \<and>
   scanToken ''break;'' (initScanner zero_globals) =
     Inr (\<lparr>tok_type = TOKEN_BREAK, tok_start = SourcePtr 0, tok_length = 5, tok_line = 1\<rparr>,
          \<lparr>scanner = \<lparr>start = 0, current = 5, line = 1\<rparr>, message = []\<rparr>)"
proof -
  have c: "current (scanner (initScanner zero_globals)) = length ([] :: string)"
    by (simp add: initScanner_def)
  have a: "isAlpha (CHR ''b'')" "isAlpha (CHR ''R'')" "isAlpha (CHR ''r'')"
    by (simp_all add: isAlpha_def)
  have w: "\<forall>c\<in>set ''reaking''. isAlpha c \<or> isDigit c"
    "\<forall>c\<in>set ''eturn''. isAlpha c \<or> isDigit c"
    "\<forall>c\<in>set ''eturns''. isAlpha c \<or> isDigit c"
    "\<forall>c\<in>set ''reak''. isAlpha c \<or> isDigit c"
    by (simp_all add: isAlpha_def)
  have e: "\<not> (isAlpha (char_at [] 0) \<or> isDigit (char_at [] 0))"
    "\<not> (isAlpha (char_at '';'' 0) \<or> isDigit (char_at '';'' 0))"
    by (simp_all add: isAlpha_def isDigit_def NUL_def)
  note defs = keyword_tag_def reserved_words_def initScanner_def zero_globals_def
  have 1: "scanToken ''breaking'' (initScanner zero_globals) =
     Inr (\<lparr>tok_type = TOKEN_IDENTIFIER, tok_start = SourcePtr 0, tok_length = 8, tok_line = 1\<rparr>,
          \<lparr>scanner = \<lparr>start = 0, current = 8, line = 1\<rparr>, message = []\<rparr>)"
    using keyword_classification [OF a(1) w(1) e(1) c, of "''breaking''"]
    by (simp add: defs)
  have 2: "scanToken ''Return'' (initScanner zero_globals) =
     Inr (\<lparr>tok_type = TOKEN_IDENTIFIER, tok_start = SourcePtr 0, tok_length = 6, tok_line = 1\<rparr>,
          \<lparr>scanner = \<lparr>start = 0, current = 6, line = 1\<rparr>, message = []\<rparr>)"
    using keyword_classification [OF a(2) w(2) e(1) c, of "''Return''"]
    by (simp add: defs)
  have 3: "scanToken ''returns'' (initScanner zero_globals) =
     Inr (\<lparr>tok_type = TOKEN_IDENTIFIER, tok_start = SourcePtr 0, tok_length = 7, tok_line = 1\<rparr>,
          \<lparr>scanner = \<lparr>start = 0, current = 7, line = 1\<rparr>, message = []\<rparr>)"
    using keyword_classification [OF a(3) w(3) e(1) c, of "''returns''"]
    by (simp add: defs)
  have 4: "scanToken ''return'' (initScanner zero_globals) =
     Inr (\<lparr>tok_type = TOKEN_RETURN, tok_start = SourcePtr 0, tok_length = 6, tok_line = 1\<rparr>,
          \<lparr>scanner = \<lparr>start = 0, current = 6, line = 1\<rparr>, message = []\<rparr>)"
    using keyword_classification [OF a(3) w(2) e(1) c, of "''return''"]
    by (simp add: defs)
  have 5: "scanToken ''break;'' (initScanner zero_globals) =
     Inr (\<lparr>tok_type = TOKEN_BREAK, tok_start = SourcePtr 0, tok_length = 5, tok_line = 1\<rparr>,
          \<lparr>scanner = \<lparr>start = 0, current = 5, line = 1\<rparr>, message = []\<rparr>)"
    using keyword_classification [OF a(1) w(4) e(2) c, of "''break;''"]
    by (simp add: defs)
  show ?thesis
    by (intro conjI a 1 2 3 4 5)
qed



text \<open>
  C5 (trailing dot of a number). The cursor stands on a digit \<open>d\<close>, followed by the
  digits \<open>ds\<close> and then by \<open>rest\<close>, which does not start with a digit; the source is
  shorter than \<open>2^31\<close> bytes, so that the \<^verbatim>\<open>int\<close> length of \<^verbatim>\<open>makeToken\<close> is the length of
  the lexeme. Unless \<open>rest\<close>
  starts with a dot that is itself followed by a digit, the \<open>TOKEN_NUMBER\<close> token covers
  \<open>d\<close> and \<open>ds\<close> only and the cursor stops behind them: a dot there is not consumed, and
  the next call returns it as a \<open>TOKEN_DOT\<close> token of one byte. When \<open>rest\<close> starts with
  a dot followed by the digits \<open>fs\<close> (at least one), the one \<open>TOKEN_NUMBER\<close> token covers
  the integer part, the dot and \<open>fs\<close>.
\<close>

theorem number_trailing_dot_policy:
  assumes "isDigit d" and "\<forall>c\<in>set ds. isDigit c" and "\<not> isDigit (char_at rest 0)"
    and "current (scanner g) = length pre"
    and "src = pre @ [d] @ ds @ rest"
    and "length src < 2147483648"
    and "g1 = g\<lparr>scanner := \<lparr>start = length pre, current = length pre + length ds + 1,
                            line = line (scanner g)\<rparr>\<rparr>"
  shows "(\<not> (char_at rest 0 = CHR ''.'' \<and> isDigit (char_at rest 1)) \<longrightarrow>
            (\<exists>tok. scanToken src g = Inr (tok, g1) \<and>
               tok = \<lparr>tok_type = TOKEN_NUMBER, tok_start = SourcePtr (length pre),
                      tok_length = int (length ds) + 1, tok_line = line (scanner g)\<rparr> \<and>
               token_text src g1 tok = d # ds)) \<and>
         (\<forall>rest'. rest = CHR ''.'' # rest' \<and> \<not> isDigit (char_at rest' 0) \<longrightarrow>
            scanToken src g1 =
              Inr (\<lparr>tok_type = TOKEN_DOT, tok_start = SourcePtr (length pre + length ds + 1),
                     tok_length = 1, tok_line = line (scanner g)\<rparr>,
                   g\<lparr>scanner := \<lparr>start = length pre + length ds + 1,
                                   current = length pre + length ds + 2,
                                   line = line (scanner g)\<rparr>\<rparr>)) \<and>
         (\<forall>fs rest'. rest = CHR ''.'' # fs @ rest' \<and> fs \<noteq> [] \<and> (\<forall>c\<in>set fs. isDigit c) \<and>
                     \<not> isDigit (char_at rest' 0) \<longrightarrow>
            (\<exists>tok g'. scanToken src g = Inr (tok, g') \<and>
               tok = \<lparr>tok_type = TOKEN_NUMBER, tok_start = SourcePtr (length pre),
                      tok_length = int (length ds) + int (length fs) + 2,
                      tok_line = line (scanner g)\<rparr> \<and>
               g' = g\<lparr>scanner := \<lparr>start = length pre,
                                    current = length pre + length ds + length fs + 2,
                                    line = line (scanner g)\<rparr>\<rparr> \<and>
               token_text src g' tok = d # ds @ CHR ''.'' # fs))"
proof (intro conjI allI impI)
  have src_eq: "src = pre @ d # ds @ rest"
    using assms(5) by simp
  have bound: "length ds + 1 < 2147483648"
    using assms(6) unfolding src_eq by simp
  {
    assume nf: "\<not> (char_at rest 0 = CHR ''.'' \<and> isDigit (char_at rest 1))"
    have int_tok: "scanToken src g =
              Inr (\<lparr>tok_type = TOKEN_NUMBER, tok_start = SourcePtr (length pre),
                     tok_length = int (length ds) + 1, tok_line = line (scanner g)\<rparr>, g1)"
      unfolding src_eq assms(7)
      by (rule scanToken_number_integer [OF assms(1,2,3) nf assms(4) bound])
    have "NUL \<notin> set (d # ds)"
      using assms(1,2) class_not_NUL by auto
    from fmt_precision_s_whole [OF this, of pre rest]
    have "fmt_precision_s src (int (length ds) + 1) (length pre) = d # ds"
      using src_eq by (simp add: add.commute)
    then show "\<exists>tok. scanToken src g = Inr (tok, g1) \<and>
               tok = \<lparr>tok_type = TOKEN_NUMBER, tok_start = SourcePtr (length pre),
                      tok_length = int (length ds) + 1, tok_line = line (scanner g)\<rparr> \<and>
               token_text src g1 tok = d # ds"
      by (simp add: int_tok token_text_def)
  }
  {
    fix rest'
    assume h: "rest = CHR ''.'' # rest' \<and> \<not> isDigit (char_at rest' 0)"
    have s3: "src = (pre @ d # ds) @ CHR ''.'' # rest'"
      using src_eq h by simp
    have "scanToken ((pre @ d # ds) @ CHR ''.'' # rest') g1 =
            Inr (\<lparr>tok_type = TOKEN_DOT, tok_start = SourcePtr (length (pre @ d # ds)),
                   tok_length = 1, tok_line = line (scanner g1)\<rparr>,
                 g1\<lparr>scanner := \<lparr>start = length (pre @ d # ds),
                                    current = length (pre @ d # ds) + 1,
                                    line = line (scanner g1)\<rparr>\<rparr>)"
      by (rule scanToken_dot) (simp add: assms(7))
    then show "scanToken src g1 =
              Inr (\<lparr>tok_type = TOKEN_DOT, tok_start = SourcePtr (length pre + length ds + 1),
                     tok_length = 1, tok_line = line (scanner g)\<rparr>,
                   g\<lparr>scanner := \<lparr>start = length pre + length ds + 1,
                                   current = length pre + length ds + 2,
                                   line = line (scanner g)\<rparr>\<rparr>)"
      unfolding s3 by (simp add: assms(7))
  }
  {
    fix fs rest'
    assume h: "rest = CHR ''.'' # fs @ rest' \<and> fs \<noteq> [] \<and> (\<forall>c\<in>set fs. isDigit c) \<and>
               \<not> isDigit (char_at rest' 0)"
    then have s2: "src = pre @ d # ds @ CHR ''.'' # fs @ rest'"
      using src_eq by simp
    have bound2: "length ds + length fs + 2 < 2147483648"
      using assms(6) unfolding s2 by simp
    have frac_tok: "scanToken src g =
              Inr (\<lparr>tok_type = TOKEN_NUMBER, tok_start = SourcePtr (length pre),
                     tok_length = int (length ds) + int (length fs) + 2,
                     tok_line = line (scanner g)\<rparr>,
                   g\<lparr>scanner := \<lparr>start = length pre,
                                   current = length pre + length ds + length fs + 2,
                                   line = line (scanner g)\<rparr>\<rparr>)"
      unfolding s2 using h bound2
      by (intro scanToken_number_fraction [OF assms(1,2) _ _ _ assms(4)]) simp_all
    have "NUL \<notin> set (d # ds @ CHR ''.'' # fs)"
      using assms(1,2) h class_not_NUL by (auto simp: NUL_def)
    from fmt_precision_s_whole [OF this, of pre rest']
    have "fmt_precision_s src (int (length ds) + int (length fs) + 2) (length pre) =
          d # ds @ CHR ''.'' # fs"
      using s2 by (simp add: ac_simps)
    then show "\<exists>tok g'. scanToken src g = Inr (tok, g') \<and>
               tok = \<lparr>tok_type = TOKEN_NUMBER, tok_start = SourcePtr (length pre),
                      tok_length = int (length ds) + int (length fs) + 2,
                      tok_line = line (scanner g)\<rparr> \<and>
               g' = g\<lparr>scanner := \<lparr>start = length pre,
                                    current = length pre + length ds + length fs + 2,
                                    line = line (scanner g)\<rparr>\<rparr> \<and>
               token_text src g' tok = d # ds @ CHR ''.'' # fs"
      by (simp add: frac_tok token_text_def)
  }
qed

text \<open>
  The examples of the specification: \<open>123.\<close> is \<open>TOKEN_NUMBER\<close> with span \<open>123\<close> and then
  \<open>TOKEN_DOT\<close> at offset 3; \<open>3.14\<close> is one \<open>TOKEN_NUMBER\<close> of all four bytes.
\<close>

theorem number_trailing_dot_policy_witness:
  "isDigit (CHR ''1'') \<and> isDigit (CHR ''3'') \<and>
   scanToken ''123.'' (initScanner zero_globals) =
     Inr (\<lparr>tok_type = TOKEN_NUMBER, tok_start = SourcePtr 0, tok_length = 3, tok_line = 1\<rparr>,
          \<lparr>scanner = \<lparr>start = 0, current = 3, line = 1\<rparr>, message = []\<rparr>) \<and>
   token_text ''123.'' \<lparr>scanner = \<lparr>start = 0, current = 3, line = 1\<rparr>, message = []\<rparr>
     \<lparr>tok_type = TOKEN_NUMBER, tok_start = SourcePtr 0, tok_length = 3, tok_line = 1\<rparr> =
     ''123'' \<and>
   scanToken ''123.'' \<lparr>scanner = \<lparr>start = 0, current = 3, line = 1\<rparr>, message = []\<rparr> =
     Inr (\<lparr>tok_type = TOKEN_DOT, tok_start = SourcePtr 3, tok_length = 1, tok_line = 1\<rparr>,
          \<lparr>scanner = \<lparr>start = 3, current = 4, line = 1\<rparr>, message = []\<rparr>) \<and>
   scanToken ''3.14'' (initScanner zero_globals) =
     Inr (\<lparr>tok_type = TOKEN_NUMBER, tok_start = SourcePtr 0, tok_length = 4, tok_line = 1\<rparr>,
          \<lparr>scanner = \<lparr>start = 0, current = 4, line = 1\<rparr>, message = []\<rparr>) \<and>
   token_text ''3.14'' \<lparr>scanner = \<lparr>start = 0, current = 4, line = 1\<rparr>, message = []\<rparr>
     \<lparr>tok_type = TOKEN_NUMBER, tok_start = SourcePtr 0, tok_length = 4, tok_line = 1\<rparr> =
     ''3.14''"
proof -
  have d: "isDigit (CHR ''1'')" "\<forall>c\<in>set ''23''. isDigit c" "isDigit (CHR ''3'')"
    "\<forall>c\<in>set ''14''. isDigit c" "\<forall>c\<in>set ''''. isDigit c"
    by (simp_all add: isDigit_def)
  have n: "\<not> isDigit (char_at ''.'' 0)" "\<not> isDigit (char_at ''.14'' 0)"
    by (simp_all add: isDigit_def)
  have c: "current (scanner (initScanner zero_globals)) = length ([] :: string)"
    by (simp add: initScanner_def)
  have l: "length ''123.'' < 2147483648" "length ''3.14'' < 2147483648"
    by simp_all
  note a = number_trailing_dot_policy [OF d(1) d(2) n(1) c _ l(1) refl]
  note b = number_trailing_dot_policy [OF d(3) d(5) n(2) c _ l(2) refl]
  from a have a1: "scanToken ''123.'' (initScanner zero_globals) =
     Inr (\<lparr>tok_type = TOKEN_NUMBER, tok_start = SourcePtr 0, tok_length = 3, tok_line = 1\<rparr>,
          \<lparr>scanner = \<lparr>start = 0, current = 3, line = 1\<rparr>, message = []\<rparr>) \<and>
     token_text ''123.'' \<lparr>scanner = \<lparr>start = 0, current = 3, line = 1\<rparr>, message = []\<rparr>
       \<lparr>tok_type = TOKEN_NUMBER, tok_start = SourcePtr 0, tok_length = 3, tok_line = 1\<rparr> =
       ''123''"
    by (auto simp add: initScanner_def zero_globals_def isDigit_def NUL_def eval_nat_numeral)
  from a have a2:
    "scanToken ''123.'' \<lparr>scanner = \<lparr>start = 0, current = 3, line = 1\<rparr>, message = []\<rparr> =
     Inr (\<lparr>tok_type = TOKEN_DOT, tok_start = SourcePtr 3, tok_length = 1, tok_line = 1\<rparr>,
          \<lparr>scanner = \<lparr>start = 3, current = 4, line = 1\<rparr>, message = []\<rparr>)"
    by (auto simp add: initScanner_def zero_globals_def isDigit_def NUL_def eval_nat_numeral)
  from b [THEN conjunct2, THEN conjunct2, THEN spec, THEN spec, of "''14''" "[]"]
  have b1: "scanToken ''3.14'' (initScanner zero_globals) =
     Inr (\<lparr>tok_type = TOKEN_NUMBER, tok_start = SourcePtr 0, tok_length = 4, tok_line = 1\<rparr>,
          \<lparr>scanner = \<lparr>start = 0, current = 4, line = 1\<rparr>, message = []\<rparr>) \<and>
     token_text ''3.14'' \<lparr>scanner = \<lparr>start = 0, current = 4, line = 1\<rparr>, message = []\<rparr>
       \<lparr>tok_type = TOKEN_NUMBER, tok_start = SourcePtr 0, tok_length = 4, tok_line = 1\<rparr> =
       ''3.14''"
    by (auto simp add: initScanner_def zero_globals_def isDigit_def NUL_def eval_nat_numeral)
  show ?thesis
    by (intro conjI d(1) d(3) a1 [THEN conjunct1] a1 [THEN conjunct2] a2
        b1 [THEN conjunct1] b1 [THEN conjunct2])
qed

text \<open>
  C6 (operators: longest match with one character of lookahead). The cursor stands on
  \<open>c\<close>, the lead of an operator, and \<open>d\<close> is the character behind it (the zero byte when
  the buffer ends there); the pair is not the start of a comment. Then the token is the one
  that the longest-match rule of the specification gives for \<open>c\<close> and \<open>d\<close> alone: two
  characters long exactly when \<open>c\<close>, \<open>d\<close> is a two-character operator, where the cursor
  moves behind \<open>d\<close>, and one character long otherwise, where \<open>d\<close> is left to the next
  call. Whatever follows \<open>d\<close> has no influence, and no token is three characters long.
\<close>

theorem operator_longest_match:
  assumes "c \<in> fst ` set single_operators"
    and "d = char_at rest 0"
    and "\<not> (c = CHR ''/'' \<and> d = CHR ''/'')"
    and "current (scanner g) = length pre"
    and "src = pre @ [c] @ rest"
  shows "\<exists>t n. longest_operator c d = Some (t, n) \<and> (n = 1 \<or> n = 2) \<and>
               (n = 2 \<longleftrightarrow> [c, d] \<in> fst ` set double_operators) \<and>
               scanToken src g =
                 Inr (\<lparr>tok_type = t, tok_start = SourcePtr (length pre), tok_length = int n,
                        tok_line = line (scanner g)\<rparr>,
                      g\<lparr>scanner := \<lparr>start = length pre, current = length pre + n,
                                      line = line (scanner g)\<rparr>\<rparr>)"
proof -
  let ?s2 = "\<lparr>start = length pre, current = Suc (length pre), line = line (scanner g)\<rparr>"
  have src_eq: "src = pre @ c # rest"
    using assms(5) by simp
  have ops: "c \<in> set ''+-*/%&|^=!<>''"
    using assms(1) by (auto simp: single_operators_def)
  have lead: "scanToken src g = scanToken_lead src c g ?s2"
  proof (cases "c = CHR ''/''")
    case True
    with assms(2,3) have "char_at rest 0 \<noteq> CHR ''/''" by simp
    then show ?thesis
      unfolding src_eq True by (rule scanToken_at_slash [OF assms(4)])
  next
    case False
    with ops have "c \<in> set ''+-*%&|^=!<>''" by auto
    then show ?thesis
      unfolding src_eq by (intro scanToken_at_lead [OF assms(4)] operator_lead)
  qed
  have pk: "peek src ?s2 = d"
    using assms(2) by (simp add: peek_def src_eq)
  from scanToken_lead_operator [of src ?s2 g] ops pk
  obtain t n where r: "longest_operator c d = Some (t, n)" "n = 1 \<or> n = 2"
      "n = 2 \<longleftrightarrow> [c, d] \<in> fst ` set double_operators"
      "scanToken_lead src c g ?s2 =
         Inr (makeToken t (?s2\<lparr>current := current ?s2 + n - 1\<rparr>),
              g\<lparr>scanner := ?s2\<lparr>current := current ?s2 + n - 1\<rparr>\<rparr>)"
    by metis
  from r(2,4) have "scanToken src g =
                 Inr (\<lparr>tok_type = t, tok_start = SourcePtr (length pre), tok_length = int n,
                        tok_line = line (scanner g)\<rparr>,
                      g\<lparr>scanner := \<lparr>start = length pre, current = length pre + n,
                                      line = line (scanner g)\<rparr>\<rparr>)"
    by (auto simp: lead makeToken_def c_int_def)
  with r(1,2,3) show ?thesis by blast
qed

text \<open>
  The example of the specification: \<open><<=\<close> is \<open>TOKEN_LESS_LESS\<close> (2 bytes at offset 0) and
  then \<open>TOKEN_EQUAL\<close> (1 byte at offset 2).
\<close>

theorem operator_longest_match_witness:
  "CHR ''<'' \<in> fst ` set single_operators \<and> CHR ''='' \<in> fst ` set single_operators \<and>
   scanToken ''<<='' (initScanner zero_globals) =
     Inr (\<lparr>tok_type = TOKEN_LESS_LESS, tok_start = SourcePtr 0, tok_length = 2, tok_line = 1\<rparr>,
          \<lparr>scanner = \<lparr>start = 0, current = 2, line = 1\<rparr>, message = []\<rparr>) \<and>
   scanToken ''<<='' \<lparr>scanner = \<lparr>start = 0, current = 2, line = 1\<rparr>, message = []\<rparr> =
     Inr (\<lparr>tok_type = TOKEN_EQUAL, tok_start = SourcePtr 2, tok_length = 1, tok_line = 1\<rparr>,
          \<lparr>scanner = \<lparr>start = 2, current = 3, line = 1\<rparr>, message = []\<rparr>)"
proof -
  let ?g0 = "initScanner zero_globals"
  let ?g1 = "\<lparr>scanner = \<lparr>start = 0, current = 2, line = 1\<rparr>, message = []\<rparr>"
  have m: "CHR ''<'' \<in> fst ` set single_operators" "CHR ''='' \<in> fst ` set single_operators"
    by (simp_all add: single_operators_def)
  have first: "scanToken ''<<='' ?g0 =
     Inr (\<lparr>tok_type = TOKEN_LESS_LESS, tok_start = SourcePtr 0, tok_length = 2, tok_line = 1\<rparr>,
          ?g1)"
    using operator_longest_match [OF m(1), of "CHR ''<''" "''<=''" ?g0 "[]" "''<<=''"]
    by (auto simp: initScanner_def zero_globals_def longest_operator_def double_operators_def
        single_operators_def)
  have second: "scanToken ''<<='' ?g1 =
     Inr (\<lparr>tok_type = TOKEN_EQUAL, tok_start = SourcePtr 2, tok_length = 1, tok_line = 1\<rparr>,
          \<lparr>scanner = \<lparr>start = 2, current = 3, line = 1\<rparr>, message = []\<rparr>)"
    using operator_longest_match [OF m(2), of NUL "[]" ?g1 "''<<''" "''<<=''"]
    by (auto simp: longest_operator_def double_operators_def single_operators_def NUL_def)
  show ?thesis
    by (intro conjI m first second)
qed

text \<open>
  C7 (string literal contract). The cursor stands on an opening double quote, and \<open>body\<close>
  holds no double quote, no newline and no zero byte; the source with the closing quote is
  shorter than \<open>2^31\<close> bytes, so that the \<^verbatim>\<open>int\<close> length of \<^verbatim>\<open>makeToken\<close> is the length of
  the literal. When a double quote follows \<open>body\<close>,
  the call returns one \<open>TOKEN_STRING\<close> token whose span is the whole literal with both
  quotes (\<open>length body + 2\<close> bytes), and the cursor ends behind the closing quote. When
  the buffer ends after \<open>body\<close>, the scan reaches the end of the buffer and the call
  returns a \<open>TOKEN_ERROR\<close> token whose text is the unterminated-string message (33 bytes),
  with the cursor at the end of the buffer. (A newline in front of the end of the buffer
  stops the scan there, with the other message, before the end is reached.)
\<close>

theorem string_literal_contract:
  assumes "\<forall>c\<in>set body. c \<noteq> NUL \<and> c \<noteq> CHR 0x22 \<and> c \<noteq> CHR 0x0A"
    and "current (scanner g) = length pre"
    and "closed = pre @ [CHR 0x22] @ body @ [CHR 0x22] @ rest"
    and "unterminated = pre @ [CHR 0x22] @ body"
    and "length closed < 2147483648"
  shows "(\<exists>tok g'. scanToken closed g = Inr (tok, g') \<and>
            tok = \<lparr>tok_type = TOKEN_STRING, tok_start = SourcePtr (length pre),
                   tok_length = int (length body) + 2, tok_line = line (scanner g)\<rparr> \<and>
            g' = g\<lparr>scanner := \<lparr>start = length pre, current = length pre + length body + 2,
                                 line = line (scanner g)\<rparr>\<rparr> \<and>
            token_text closed g' tok = [CHR 0x22] @ body @ [CHR 0x22]) \<and>
         (\<exists>tok g'. scanToken unterminated g = Inr (tok, g') \<and>
            tok = \<lparr>tok_type = TOKEN_ERROR, tok_start = LiteralPtr MSG_UNTERMINATED_STRING,
                   tok_length = 33, tok_line = line (scanner g)\<rparr> \<and>
            g' = g\<lparr>scanner := \<lparr>start = length pre, current = length unterminated,
                                 line = line (scanner g)\<rparr>\<rparr> \<and>
            token_text unterminated g' tok = MSG_UNTERMINATED_STRING \<and>
            isAtEnd unterminated (scanner g'))"
proof -
  have c: "closed = pre @ CHR 0x22 # body @ CHR 0x22 # rest"
    and u: "unterminated = pre @ CHR 0x22 # body"
    using assms(3,4) by simp_all
  have bound: "length body + 2 < 2147483648"
    using assms(5) unfolding c by simp
  have nn: "NUL \<notin> set ([CHR 0x22] @ body @ [CHR 0x22])"
    using assms(1) by (auto simp: NUL_def)
  have span: "fmt_precision_s closed (int (length body) + 2) (length pre) =
              [CHR 0x22] @ body @ [CHR 0x22]"
    using fmt_precision_s_whole [OF nn, of pre rest] assms(3) by (simp add: add.commute)
  have msg: "fmt_precision_s MSG_UNTERMINATED_STRING 33 0 = MSG_UNTERMINATED_STRING"
    using fmt_precision_s_all [OF messages_no_NUL(2), of 33]
    by (simp add: MSG_UNTERMINATED_STRING_def)
  have e: "char_at (pre @ CHR 0x22 # body) (Suc (length pre + length body)) = NUL"
    using char_at_after_body [of pre "CHR 0x22" body "[]"] by simp
  have l: "length MSG_UNTERMINATED_STRING = 33"
    by (simp add: MSG_UNTERMINATED_STRING_def)
  show ?thesis
    unfolding c u scanToken_string_closed [OF assms(1,2) bound]
      scanToken_string_unterminated [OF assms(1,2)]
    using span [unfolded c] e l msg
    by (simp add: token_text_def strlen_messages isAtEnd_def)
qed

text \<open>
  The examples of the specification: \<open>"hello"\<close> is one \<open>TOKEN_STRING\<close> token of 7 bytes,
  quotes included; \<open>"hello\<close> without its closing quote is the unterminated-string error.
\<close>

theorem string_literal_contract_witness:
  "scanToken (CHR 0x22 # ''hello'' @ [CHR 0x22]) (initScanner zero_globals) =
     Inr (\<lparr>tok_type = TOKEN_STRING, tok_start = SourcePtr 0, tok_length = 7, tok_line = 1\<rparr>,
          \<lparr>scanner = \<lparr>start = 0, current = 7, line = 1\<rparr>, message = []\<rparr>) \<and>
   token_text (CHR 0x22 # ''hello'' @ [CHR 0x22])
     \<lparr>scanner = \<lparr>start = 0, current = 7, line = 1\<rparr>, message = []\<rparr>
     \<lparr>tok_type = TOKEN_STRING, tok_start = SourcePtr 0, tok_length = 7, tok_line = 1\<rparr> =
     CHR 0x22 # ''hello'' @ [CHR 0x22] \<and>
   scanToken (CHR 0x22 # ''hello'') (initScanner zero_globals) =
     Inr (\<lparr>tok_type = TOKEN_ERROR, tok_start = LiteralPtr MSG_UNTERMINATED_STRING,
            tok_length = 33, tok_line = 1\<rparr>,
          \<lparr>scanner = \<lparr>start = 0, current = 6, line = 1\<rparr>, message = []\<rparr>)"
proof -
  have l: "length (CHR 0x22 # ''hello'' @ [CHR 0x22]) < 2147483648"
    by simp
  show ?thesis
    using string_literal_contract
          [of "''hello''" "initScanner zero_globals" "[]"
              "CHR 0x22 # ''hello'' @ [CHR 0x22]" "[]" "CHR 0x22 # ''hello''", OF _ _ _ _ l]
    by (auto simp add: initScanner_def zero_globals_def NUL_def eval_nat_numeral)
qed

text \<open>
  C8 (diagnostic buffer truncation). The specification states that the message formatted
  into the buffer is never longer than the capacity, overlong text being truncated. \<^verbatim>\<open>character\<close> formats with
  \<^verbatim>\<open>sprintf\<close>, which has no bound, into \<^verbatim>\<open>static char message[50]\<close>: the format's fixed
  text is 19 bytes, so a character literal that encloses 31 bytes makes \<^verbatim>\<open>sprintf\<close> write
  50 bytes and the terminating zero byte, 51 in all, one more than the array holds. Nothing
  is truncated: the bytes \<^verbatim>\<open>sprintf\<close> writes are the full message, and the call writes past
  the end of the array.
\<close>

theorem message_written_past_buffer:
  "scanToken (CHR 0x27 # replicate 31 (CHR ''a'') @ [CHR 0x27]) (initScanner zero_globals) =
     Inl (MessageOverrun (FMT_NOT_SINGLE_CHARACTER @ replicate 31 (CHR ''a''))) \<and>
   sprintf_message (FMT_NOT_SINGLE_CHARACTER @ replicate 31 (CHR ''a'')) =
     Inl (MessageOverrun (FMT_NOT_SINGLE_CHARACTER @ replicate 31 (CHR ''a''))) \<and>
   length (FMT_NOT_SINGLE_CHARACTER @ replicate 31 (CHR ''a'')) = 50 \<and>
   MESSAGE_SIZE < length (FMT_NOT_SINGLE_CHARACTER @ replicate 31 (CHR ''a'')) + 1"
  using scanToken_character_closed
          [of "replicate 31 (CHR ''a'')" "initScanner zero_globals" "[]" "[]"]
  by (simp add: initScanner_def zero_globals_def NUL_def MESSAGE_SIZE_def strlen_messages
      sprintf_message_def)



text \<open>
  C10 (idempotence at the end of input). Whenever the cursor is at the end of the buffer
  once the blanks and comments are skipped, \<^verbatim>\<open>scanToken\<close> returns a \<open>TOKEN_EOF\<close> token of
  length 0 there and leaves the state as the skipping left it, but for \<open>start\<close>, which is
  set to \<open>current\<close> (when the cursor was at the end already, the skipping changes
  nothing). A further call returns the same token and the same state, and so does every
  call after any number of further calls.
\<close>

theorem EOF_is_idempotent:
  assumes "isAtEnd src (skipWhitespace src (scanner g))"
    and "s0 = skipWhitespace src (scanner g)"
    and "eof = \<lparr>tok_type = TOKEN_EOF, tok_start = SourcePtr (current s0), tok_length = 0,
                tok_line = line (scanner g)\<rparr>"
    and "g' = g\<lparr>scanner := s0\<lparr>start := current s0\<rparr>\<rparr>"
  shows "scanToken src g = Inr (eof, g') \<and>
         (isAtEnd src (scanner g) \<longrightarrow> s0 = scanner g) \<and>
         scanToken src g' = Inr (eof, g') \<and>
         (\<forall>n. scan_n n src g' = Inr g' \<and>
              (\<forall>gn. scan_n n src g' = Inr gn \<longrightarrow> scanToken src gn = Inr (eof, g')))"
proof -
  have first: "scanToken src g = Inr (eof, g')"
    using scanToken_at_end [OF assms(1)] assms(2-4) by simp
  have e: "isAtEnd src (scanner g')" and st: "start (scanner g') = current (scanner g')"
    using assms by (simp_all add: isAtEnd_def)
  have fixed: "scan_n n src g' = Inr g'" for n
    using e st by (rule scan_n_at_end)
  have sk: "skipWhitespace src (scanner g') = scanner g'"
    using e by (rule skipWhitespace_at_end)
  have again: "scanToken src g' = Inr (eof, g')"
    using scanToken_at_end [of src g'] e st sk assms(2-4) by simp
  show ?thesis
    using first again fixed by (simp add: skipWhitespace_at_end assms(2))
qed

text \<open>
  On the source \<open>x\<close>, blank: after the identifier is read, the next call skips the blank
  and returns \<open>TOKEN_EOF\<close> at offset 2; so does the call after it; five more calls leave
  the state as it is; and with the cursor at the end already, the skipping changes nothing.
\<close>

theorem EOF_is_idempotent_witness:
  "scan_n 1 ''x '' (initScanner zero_globals) =
     Inr \<lparr>scanner = \<lparr>start = 0, current = 1, line = 1\<rparr>, message = []\<rparr> \<and>
   scanToken ''x '' \<lparr>scanner = \<lparr>start = 0, current = 1, line = 1\<rparr>, message = []\<rparr> =
     Inr (\<lparr>tok_type = TOKEN_EOF, tok_start = SourcePtr 2, tok_length = 0, tok_line = 1\<rparr>,
          \<lparr>scanner = \<lparr>start = 2, current = 2, line = 1\<rparr>, message = []\<rparr>) \<and>
   scanToken ''x '' \<lparr>scanner = \<lparr>start = 2, current = 2, line = 1\<rparr>, message = []\<rparr> =
     Inr (\<lparr>tok_type = TOKEN_EOF, tok_start = SourcePtr 2, tok_length = 0, tok_line = 1\<rparr>,
          \<lparr>scanner = \<lparr>start = 2, current = 2, line = 1\<rparr>, message = []\<rparr>) \<and>
   scan_n 5 ''x '' \<lparr>scanner = \<lparr>start = 2, current = 2, line = 1\<rparr>, message = []\<rparr> =
     Inr \<lparr>scanner = \<lparr>start = 2, current = 2, line = 1\<rparr>, message = []\<rparr> \<and>
   isAtEnd ''x '' \<lparr>start = 2, current = 2, line = 1\<rparr> \<and>
   skipWhitespace ''x '' \<lparr>start = 2, current = 2, line = 1\<rparr> =
      \<lparr>start = 2, current = 2, line = 1\<rparr>"
proof -
  have g1: "scan_n 1 ''x '' (initScanner zero_globals) =
            Inr \<lparr>scanner = \<lparr>start = 0, current = 1, line = 1\<rparr>, message = []\<rparr>"
    by (simp add: scanToken_def initScanner_def zero_globals_def Let_def skipWhitespace.simps
        peek_def char_at_def advance_def isAtEnd_def NUL_def store_def scanToken_lead_def isAlpha_def
        isDigit_def identifier_tok_def identifier_loop.simps identifierType_def makeToken_def)
  have sk: "skipWhitespace ''x '' \<lparr>start = 0, current = 1, line = 1\<rparr> =
            \<lparr>start = 0, current = 2, line = 1\<rparr>"
    by (simp add: skipWhitespace.simps peek_def char_at_def NUL_def advance_def Let_def)
  have e: "isAtEnd ''x '' (skipWhitespace ''x ''
             (scanner \<lparr>scanner = \<lparr>start = 0, current = 1, line = 1\<rparr>, message = []\<rparr>))"
    using sk by (simp add: isAtEnd_def char_at_def)
  have e2: "isAtEnd ''x '' \<lparr>start = 2, current = 2, line = 1\<rparr>"
    by (simp add: isAtEnd_def char_at_def)
  have e3: "isAtEnd ''x '' (skipWhitespace ''x ''
             (scanner \<lparr>scanner = \<lparr>start = 2, current = 2, line = 1\<rparr>, message = []\<rparr>))"
    using e2 by (simp add: skipWhitespace_at_end)
  have fixed: "skipWhitespace ''x '' \<lparr>start = 2, current = 2, line = 1\<rparr> =
               \<lparr>start = 2, current = 2, line = 1\<rparr>"
    using EOF_is_idempotent [OF e3 refl refl refl, THEN conjunct2, THEN conjunct1] e2
    by simp
  show ?thesis
    using EOF_is_idempotent [OF e refl refl refl, THEN conjunct1]
      EOF_is_idempotent [OF e refl refl refl, THEN conjunct2, THEN conjunct2, THEN conjunct1]
      EOF_is_idempotent [OF e refl refl refl, THEN conjunct2, THEN conjunct2, THEN conjunct2,
        THEN spec, of 5]
    using g1 sk e2 fixed by simp
qed

end
